theory Spec2Isabelle
  imports Main "HOL-Library.Multiset" "HOL-Library.Word"
begin

text \<open>
  The chatbot backend of the FED website: the Gemini service with its pool of API keys, its
  request spacing and its retry loop; the prompt builder and the controller that assemble
  the context and run the two-stage dispatch; and the send-email operation. Each source
  function is a HOL function of the same name. What lies outside the process (the upstream
  model, the data store, the clock, library functions of the JavaScript runtime) is a
  parameter or a field of the state, and what a function does beyond returning a value is
  returned with the value, as a list of events.
\<close>

section \<open>JavaScript strings and values\<close>

text \<open>
  A JavaScript string is modelled as a \<open>string\<close> whose characters are the code units
  U+0000 to U+00FF. A value that may be \<open>undefined\<close> or \<open>null\<close> is an \<open>option\<close>.
\<close>

definition nl :: string where
  "nl = [CHR 0x0A]"

text \<open>The white space that \<open>String.prototype.trim\<close> removes, among the code units modelled.\<close>

definition isWhiteSpace :: "char \<Rightarrow> bool" where
  "isWhiteSpace c = (c \<in> set [CHR 0x09, CHR 0x0A, CHR 0x0B, CHR 0x0C, CHR 0x0D, CHR 0x20, CHR 0xA0])"

definition trim :: "string \<Rightarrow> string" where
  "trim s = rev (dropWhile isWhiteSpace (rev (dropWhile isWhiteSpace s)))"

fun startsWith :: "string \<Rightarrow> string \<Rightarrow> bool" where
  "startsWith s [] = True"
| "startsWith [] (p # ps) = False"
| "startsWith (c # cs) (p # ps) = (c = p \<and> startsWith cs ps)"

text \<open>\<open>s.includes(pat)\<close>: \<open>pat\<close> occurs in \<open>s\<close> as a contiguous run.\<close>

fun str_includes :: "string \<Rightarrow> string \<Rightarrow> bool" where
  "str_includes [] pat = (pat = [])"
| "str_includes (c # cs) pat = (startsWith (c # cs) pat \<or> str_includes cs pat)"

text \<open>\<open>String.prototype.toLowerCase\<close> on the code units modelled: A to Z, and U+00C0 to
  U+00DE without the multiplication sign U+00D7, move up by 32.\<close>

definition lowerChar :: "char \<Rightarrow> char" where
  "lowerChar c =
     (let n = of_char c :: nat
      in if (65 \<le> n \<and> n \<le> 90) \<or> (192 \<le> n \<and> n \<le> 222 \<and> n \<noteq> 215)
         then char_of (n + 32) else c)"

definition toLowerCase :: "string \<Rightarrow> string" where
  "toLowerCase s = map lowerChar s"

definition isDigit :: "char \<Rightarrow> bool" where
  "isDigit c = (48 \<le> (of_char c :: nat) \<and> (of_char c :: nat) \<le> 57)"

text \<open>JavaScript truthiness of an optional string: \<open>undefined\<close>, \<open>null\<close> and \<open>''\<close> are falsy.\<close>

fun truthy :: "string option \<Rightarrow> bool" where
  "truthy None = False"
| "truthy (Some s) = (s \<noteq> [])"

text \<open>\<open>a || b\<close> on optional strings.\<close>

definition orElse :: "string option \<Rightarrow> string option \<Rightarrow> string option" where
  "orElse a b = (if truthy a then a else b)"

section \<open>config/nodeMailer.js and the chatbot's emailController.js\<close>

record mail =
  mailFrom :: "string option"
  mailTo :: string
  mailSubject :: string
  mailText :: string
  mailReplyTo :: "string option"

text \<open>A transporter is an object of the mail library; \<open>sendMail\<close> resolves (\<open>True\<close>) or
  rejects (\<open>False\<close>).\<close>

type_synonym transporter = "mail \<Rightarrow> bool"

record mailTransporters_t =
  primary :: "transporter option"
  secondary :: "transporter option"
  tertiary :: "transporter option"
  mailerSend :: "transporter option"

text \<open>\<open>module.exports\<close> of config/nodeMailer.js: every transporter is \<open>null\<close>.\<close>

definition mailTransporters :: mailTransporters_t where
  "mailTransporters = \<lparr>primary = None, secondary = None, tertiary = None, mailerSend = None\<rparr>"

record chat_user =
  userId :: string
  userName :: "string option"
  userEmail :: "string option"
  userAccess :: "string option"
  regForm :: "string list option"

record email_request =
  content :: "string option"
  senderName :: "string option"
  senderEmail :: "string option"
  emailUser :: "chat_user option"

record email_response =
  resStatus :: nat
  resSuccess :: bool
  resMessage :: string

definition emailBody :: "string \<Rightarrow> string \<Rightarrow> string \<Rightarrow> string" where
  "emailBody name email c =
     nl @ ''Message from FED Website Chatbot'' @ nl @
     ''================================'' @ nl @ nl @
     ''From: '' @ name @ nl @
     ''Email: '' @ email @ nl @ nl @
     ''Message:'' @ nl @ c @ nl @ nl @
     ''================================'' @ nl @
     ''This email was sent via the FED Chatbot.'' @ nl"

text \<open>
  \<open>sendEmail\<close>: the response, and the mails handed to a transporter. \<open>ts\<close> is the required
  module, \<open>mailUser\<close> is \<open>process.env.MAIL_USER\<close>. Calling \<open>sendMail\<close> on \<open>null\<close> throws a
  TypeError inside the \<open>try\<close> block, which the \<open>catch\<close> turns into the 500 response.
\<close>

definition sendEmail ::
  "mailTransporters_t \<Rightarrow> string option \<Rightarrow> email_request \<Rightarrow> email_response \<times> mail list" where
  "sendEmail ts mailUser req =
     (case content req of
        None \<Rightarrow> (\<lparr>resStatus = 400, resSuccess = False, resMessage = ''Email content is required''\<rparr>, [])
      | Some c \<Rightarrow>
          if c = [] \<or> trim c = []
          then (\<lparr>resStatus = 400, resSuccess = False, resMessage = ''Email content is required''\<rparr>, [])
          else
            let user = emailUser req;
                name = the (orElse (orElse (case user of None \<Rightarrow> None | Some u \<Rightarrow> userName u)
                                           (senderName req))
                                   (Some ''Anonymous User''));
                email = the (orElse (orElse (case user of None \<Rightarrow> None | Some u \<Rightarrow> userEmail u)
                                            (senderEmail req))
                                    (Some ''Not provided''));
                m = \<lparr>mailFrom = mailUser, mailTo = ''fedkiit@gmail.com'',
                     mailSubject = name @ '' wants to ask'',
                     mailText = emailBody name email c,
                     mailReplyTo = (if email \<noteq> ''Not provided'' then Some email else None)\<rparr>
            in (case primary ts of
                  None \<Rightarrow>
                    (\<lparr>resStatus = 500, resSuccess = False,
                      resMessage = ''Failed to send email. Please try again later.''\<rparr>, [])
                | Some t \<Rightarrow>
                    if t m
                    then (\<lparr>resStatus = 200, resSuccess = True,
                           resMessage = ''Email sent successfully! The FED team will get back to you soon.''\<rparr>,
                          [m])
                    else (\<lparr>resStatus = 500, resSuccess = False,
                           resMessage = ''Failed to send email. Please try again later.''\<rparr>, [m])))"

section \<open>geminiService: credential pool, throttle and retry orchestrator\<close>

record retry_config =
  maxRetries :: nat
  initialDelayMs :: int
  maxDelayMs :: int
  backoffMultiplier :: int

definition RETRY_CONFIG :: retry_config where
  "RETRY_CONFIG =
     \<lparr>maxRetries = 2, initialDelayMs = 1000, maxDelayMs = 5000, backoffMultiplier = 2\<rparr>"

definition MIN_REQUEST_INTERVAL_MS :: int where
  "MIN_REQUEST_INTERVAL_MS = 500"

text \<open>
  An entry of \<open>error.errorDetails\<close>: its \<open>@type\<close>, its \<open>retryDelay\<close> text such as \<open>4s\<close> or
  \<open>4.5s\<close>, and \<open>retryDelayMillis\<close>, the number
  \<open>Math.ceil(parseFloat(match[1]) * 1000)\<close> that the source computes from the first
  decimal numeral in that text; the floating-point product is not modelled, its result is
  given with the entry.
\<close>

record error_detail =
  atType :: "string option"
  retryDelay :: "string option"
  retryDelayMillis :: int

text \<open>
  An error thrown by the upstream call. \<open>message\<close> is \<open>error.message\<close>, the empty string
  when it is absent (both uses, \<open>error.message || ''\<close> and \<open>error.message?.includes\<close>,
  treat the two alike).
\<close>

record gemini_error =
  message :: string
  status :: "int option"
  statusCode :: "int option"
  errorDetails :: "error_detail list option"

definition getBackoffDelay :: "retry_config \<Rightarrow> nat \<Rightarrow> int" where
  "getBackoffDelay cfg attempt =
     (let delay = initialDelayMs cfg * backoffMultiplier cfg ^ attempt
      in min delay (maxDelayMs cfg))"

text \<open>\<open>error.status || error.statusCode || 0\<close>: a missing or zero field is falsy.\<close>

definition errorStatusCode :: "gemini_error \<Rightarrow> int" where
  "errorStatusCode e =
     (case status e of
        Some s \<Rightarrow> if s \<noteq> 0 then s
                  else (case statusCode e of Some c \<Rightarrow> c | None \<Rightarrow> 0)
      | None \<Rightarrow> (case statusCode e of Some c \<Rightarrow> c | None \<Rightarrow> 0))"

definition isRetryableError :: "gemini_error \<Rightarrow> bool" where
  "isRetryableError e =
     (let errorMessage = message e; code = errorStatusCode e
      in if code = 429 \<or> str_includes errorMessage ''429''
            \<or> str_includes errorMessage ''Too Many Requests'' then True
         else if code \<ge> 500 \<and> code < 600 then True
         else if str_includes errorMessage ''quota'' \<or> str_includes errorMessage ''rate limit''
         then True
         else False)"

text \<open>
  \<open>getRetryDelayFromError\<close>: the first entry whose \<open>@type\<close> includes \<open>RetryInfo\<close>; when its
  \<open>retryDelay\<close> is a non-empty text in which the pattern \<open>(\d+\.?\d*)\<close> finds a match, that
  is, which has a digit, the delay in milliseconds; in every other case \<open>null\<close>.
\<close>

definition getRetryDelayFromError :: "gemini_error \<Rightarrow> int option" where
  "getRetryDelayFromError e =
     (case errorDetails e of
        None \<Rightarrow> None
      | Some details \<Rightarrow>
          (case find (\<lambda>d. case atType d of Some t \<Rightarrow> str_includes t ''RetryInfo''
                                         | None \<Rightarrow> False) details of
             None \<Rightarrow> None
           | Some retryInfo \<Rightarrow>
               if truthy (retryDelay retryInfo)
                  \<and> list_ex isDigit (the (retryDelay retryInfo))
               then Some (retryDelayMillis retryInfo)
               else None))"

text \<open>\<open>errorDelay || backoffDelay\<close>: \<open>null\<close> and \<open>0\<close> are falsy.\<close>

definition retryDelay :: "retry_config \<Rightarrow> nat \<Rightarrow> gemini_error \<Rightarrow> int" where
  "retryDelay cfg attempt e =
     (let errorDelay = getRetryDelayFromError e; backoffDelay = getBackoffDelay cfg attempt
      in case errorDelay of
           Some d \<Rightarrow> if d \<noteq> 0 then d else backoffDelay
         | None \<Rightarrow> backoffDelay)"

text \<open>The condition of the \<open>break\<close> that leaves the retry loop for the next key.\<close>

definition rotatesImmediately :: "gemini_error \<Rightarrow> bool" where
  "rotatesImmediately e = (isRetryableError e \<and> str_includes (message e) ''429'')"

record history_msg =
  role :: "string option"
  isUser :: bool
  msgContent :: "string option"
  msgText :: "string option"

record chat_turn =
  turnRole :: string
  turnText :: string

text \<open>The chat history sent upstream: each message mapped, leading model turns dropped.\<close>

definition buildHistory :: "history_msg list \<Rightarrow> chat_turn list" where
  "buildHistory conversationHistory =
     dropWhile (\<lambda>t. turnRole t = ''model'')
       (map (\<lambda>msg. \<lparr>turnRole = (if truthy (role msg) then the (role msg)
                                  else if isUser msg then ''user'' else ''model''),
                      turnText = the (orElse (orElse (msgContent msg) (msgText msg)) (Some []))\<rparr>)
            conversationHistory)"

record gen_request =
  systemInstruction :: string
  history :: "chat_turn list"
  userMessage :: string

text \<open>
  The upstream backend is outside the program: its answer to the n-th call made with a
  given key and request is the thrown error or the response text, and the time the call took.
\<close>

record reply =
  outcome :: "gemini_error + string"
  took :: int

type_synonym upstream = "nat \<Rightarrow> string option \<Rightarrow> gen_request \<Rightarrow> reply"

text \<open>
  The module's two variables, \<open>currentKeyIndex\<close> and \<open>lastRequestTime\<close>, with the clock
  \<open>Date.now()\<close> reads and the number of upstream calls made so far.
\<close>

record service_state =
  currentKeyIndex :: nat
  lastRequestTime :: int
  now :: int
  calls :: nat

text \<open>What a dispatch does, in order: the sleeps, the upstream attempts (key index, attempt
  number, start time, outcome) and the key rotations (from, to).\<close>

datatype event =
    Slept int
  | Attempt nat nat int "gemini_error + string"
  | Rotated nat nat

text \<open>
  \<open>sleep(ms)\<close> is a promise on \<open>setTimeout(resolve, ms)\<close>. The timer of Node.js sets a delay
  below 1 or above 2147483647 (2^31 - 1) to 1; the caller resumes when the timer fires,
  taken here to be exactly after the timer's delay.
\<close>

definition timerDelay :: "int \<Rightarrow> int" where
  "timerDelay ms = (if ms < 1 \<or> ms > 2147483647 then 1 else ms)"

definition sleep :: "int \<Rightarrow> service_state \<Rightarrow> service_state" where
  "sleep ms st = st\<lparr>now := now st + timerDelay ms\<rparr>"

text \<open>\<open>API_KEYS[i]\<close>, \<open>undefined\<close> out of range, and \<open>getCurrentKey\<close>, which reads it at
  \<open>currentKeyIndex\<close>.\<close>

definition keyAt :: "string list \<Rightarrow> nat \<Rightarrow> string option" where
  "keyAt API_KEYS i = (if i < length API_KEYS then Some (API_KEYS ! i) else None)"

definition getCurrentKey :: "string list \<Rightarrow> service_state \<Rightarrow> string option" where
  "getCurrentKey API_KEYS st = keyAt API_KEYS (currentKeyIndex st)"

definition rotateToNextKey :: "string list \<Rightarrow> service_state \<Rightarrow> bool \<times> service_state" where
  "rotateToNextKey API_KEYS st =
     (let previousIndex = currentKeyIndex st;
          st' = st\<lparr>currentKeyIndex := (currentKeyIndex st + 1) mod length API_KEYS\<rparr>
      in (currentKeyIndex st' \<noteq> previousIndex, st'))"

datatype loop_exit = Returned string | KeyFailed "gemini_error option"

definition withEvents ::
  "event list \<Rightarrow> 'a \<times> service_state \<times> event list \<Rightarrow> 'a \<times> service_state \<times> event list" where
  "withEvents evs r = (case r of (x, st, evs') \<Rightarrow> (x, st, evs @ evs'))"

text \<open>
  The \<open>for\<close> loop over \<open>attempt\<close>, from the given attempt on, with \<open>lastError\<close> as it stands.
  It ends by \<open>return response\<close>, by the \<open>break\<close>, or by running out of attempts. The request
  is the same at every attempt (the history is rebuilt from the same argument each time).
\<close>

function attemptLoop ::
  "retry_config \<Rightarrow> upstream \<Rightarrow> gen_request \<Rightarrow> string option \<Rightarrow> nat \<Rightarrow> gemini_error option \<Rightarrow>
   service_state \<Rightarrow> loop_exit \<times> service_state \<times> event list" where
  "attemptLoop cfg up req currentKey attempt lastError st =
     (if attempt \<le> maxRetries cfg then
        let st1 = st\<lparr>lastRequestTime := now st\<rparr>;
            r = up (calls st1) currentKey req;
            st2 = st1\<lparr>now := now st1 + took r, calls := Suc (calls st1)\<rparr>;
            ev = Attempt (currentKeyIndex st) attempt (now st) (outcome r)
        in (case outcome r of
              Inr response \<Rightarrow> (Returned response, st2, [ev])
            | Inl error \<Rightarrow>
                if isRetryableError error \<and> str_includes (message error) ''429''
                then (KeyFailed (Some error), st2, [ev])
                else if attempt < maxRetries cfg \<and> isRetryableError error
                then withEvents [ev, Slept (retryDelay cfg attempt error)]
                       (attemptLoop cfg up req currentKey (Suc attempt) (Some error)
                          (sleep (retryDelay cfg attempt error) st2))
                else withEvents [ev]
                       (attemptLoop cfg up req currentKey (Suc attempt) (Some error) st2))
      else (KeyFailed lastError, st, []))"
  by pat_completeness auto
termination
  by (relation "measure (\<lambda>(cfg, up, req, currentKey, attempt, lastError, st).
                  Suc (maxRetries cfg) - attempt)") auto

declare attemptLoop.simps [simp del]

definition exhaustedMessage :: "gemini_error option \<Rightarrow> string" where
  "exhaustedMessage lastError =
     ''Gemini API Error: '' @
       (case lastError of
          Some e \<Rightarrow> if message e \<noteq> [] then message e else ''All API keys exhausted''
        | None \<Rightarrow> ''All API keys exhausted'')"

text \<open>The \<open>while\<close> loop over the keys, from the given \<open>keysTriedCount\<close> on. \<open>Inl\<close> is the
  message of the error thrown once all keys are exhausted.\<close>

function keyLoop ::
  "string list \<Rightarrow> retry_config \<Rightarrow> upstream \<Rightarrow> gen_request \<Rightarrow> nat \<Rightarrow> gemini_error option \<Rightarrow>
   service_state \<Rightarrow> (string + string) \<times> service_state \<times> event list" where
  "keyLoop API_KEYS cfg up req keysTriedCount lastError st =
     (if keysTriedCount < length API_KEYS then
        (case attemptLoop cfg up req (getCurrentKey API_KEYS st) 0 lastError st of
           (Returned response, st1, evs) \<Rightarrow> (Inr response, st1, evs)
         | (KeyFailed lastError', st1, evs) \<Rightarrow>
             if Suc keysTriedCount < length API_KEYS
             then withEvents
                    (evs @ [Rotated (currentKeyIndex st1)
                              (currentKeyIndex (snd (rotateToNextKey API_KEYS st1)))])
                    (keyLoop API_KEYS cfg up req (Suc keysTriedCount) lastError'
                       (snd (rotateToNextKey API_KEYS st1)))
             else withEvents evs
                    (keyLoop API_KEYS cfg up req (Suc keysTriedCount) lastError' st1))
      else (Inl (exhaustedMessage lastError), st, []))"
  by pat_completeness auto
termination
  by (relation "measure (\<lambda>(API_KEYS, cfg, up, req, keysTriedCount, lastError, st).
                  length API_KEYS - keysTriedCount)") auto

declare keyLoop.simps [simp del]

text \<open>\<open>generateResponse\<close>: the spacing wait, once, and then the loop over the keys.\<close>

definition generateResponse ::
  "string list \<Rightarrow> retry_config \<Rightarrow> upstream \<Rightarrow> string \<Rightarrow> string \<Rightarrow> history_msg list \<Rightarrow>
   service_state \<Rightarrow> (string + string) \<times> service_state \<times> event list" where
  "generateResponse API_KEYS cfg up systemPrompt userMsg conversationHistory st =
     (let req = \<lparr>systemInstruction = systemPrompt, history = buildHistory conversationHistory,
                 userMessage = userMsg\<rparr>;
          timeSinceLastRequest = now st - lastRequestTime st
      in if timeSinceLastRequest < MIN_REQUEST_INTERVAL_MS
         then withEvents [Slept (MIN_REQUEST_INTERVAL_MS - timeSinceLastRequest)]
                (keyLoop API_KEYS cfg up req 0 None
                   (sleep (MIN_REQUEST_INTERVAL_MS - timeSinceLastRequest) st))
         else keyLoop API_KEYS cfg up req 0 None st)"

text \<open>Reading a trace: the start times of the attempts, and the spacing between them.\<close>

fun attemptTimes :: "event list \<Rightarrow> int list" where
  "attemptTimes [] = []"
| "attemptTimes (Attempt k a t r # evs) = t # attemptTimes evs"
| "attemptTimes (e # evs) = attemptTimes evs"

fun spacedBy :: "int \<Rightarrow> int list \<Rightarrow> bool" where
  "spacedBy d (t1 # t2 # ts) = (t2 - t1 \<ge> d \<and> spacedBy d (t2 # ts))"
| "spacedBy d ts = True"

fun rotations :: "event list \<Rightarrow> nat" where
  "rotations [] = 0"
| "rotations (Rotated i j # evs) = Suc (rotations evs)"
| "rotations (e # evs) = rotations evs"

text \<open>The state right after an upstream call made in state \<open>st\<close>: the start time recorded,
  the clock moved by the time the call took, one more call made.\<close>

definition afterAttempt ::
  "upstream \<Rightarrow> gen_request \<Rightarrow> string option \<Rightarrow> service_state \<Rightarrow> service_state" where
  "afterAttempt up req key st =
     st\<lparr>lastRequestTime := now st, now := now st + took (up (calls st) key req),
        calls := Suc (calls st)\<rparr>"

text \<open>The spacing wait at the head of \<open>generateResponse\<close>: the sleep it makes, if any, and
  the state it leaves.\<close>

definition throttleWait :: "service_state \<Rightarrow> event list" where
  "throttleWait st =
     (if now st - lastRequestTime st < MIN_REQUEST_INTERVAL_MS
      then [Slept (MIN_REQUEST_INTERVAL_MS - (now st - lastRequestTime st))] else [])"

definition afterThrottle :: "service_state \<Rightarrow> service_state" where
  "afterThrottle st =
     (if now st - lastRequestTime st < MIN_REQUEST_INTERVAL_MS
      then sleep (MIN_REQUEST_INTERVAL_MS - (now st - lastRequestTime st)) st else st)"

text \<open>
  Replaying a trace against the upstream, from the clock \<open>c\<close>, the call number \<open>n\<close> and the
  cursor \<open>i\<close>. \<open>follows up API_KEYS req c n i evs\<close>: the clock moves by the sleeps (each by its
  timer's delay) and by the time each call takes, and by nothing else; every attempt starts
  at the clock's time, is made with the key under the cursor and has the outcome the
  upstream gives to that call; every rotation moves the cursor from where it is to the
  next index, cyclically.
\<close>

fun follows ::
  "upstream \<Rightarrow> string list \<Rightarrow> gen_request \<Rightarrow> int \<Rightarrow> nat \<Rightarrow> nat \<Rightarrow> event list \<Rightarrow> bool" where
  "follows up API_KEYS req c n i [] = True"
| "follows up API_KEYS req c n i (Slept d # evs) =
     follows up API_KEYS req (c + timerDelay d) n i evs"
| "follows up API_KEYS req c n i (Rotated p q # evs) =
     (p = i \<and> q = (i + 1) mod length API_KEYS \<and> follows up API_KEYS req c n q evs)"
| "follows up API_KEYS req c n i (Attempt j a t r # evs) =
     (j = i \<and> t = c \<and> r = outcome (up n (keyAt API_KEYS i) req)
      \<and> follows up API_KEYS req (c + took (up n (keyAt API_KEYS i) req)) (Suc n) i evs)"

text \<open>The signal the break tests for, and the rate-limit signal in the wider sense of the
  first test of \<open>isRetryableError\<close> (status code 429, or the text).\<close>

definition has429 :: "gemini_error \<Rightarrow> bool" where
  "has429 e = str_includes (message e) ''429''"

definition rateLimitSignal :: "gemini_error \<Rightarrow> bool" where
  "rateLimitSignal e =
     (errorStatusCode e = 429 \<or> str_includes (message e) ''429''
      \<or> str_includes (message e) ''Too Many Requests'')"

text \<open>An upstream that gives the same answer to every call, for concrete runs.\<close>

definition constUpstream :: "reply \<Rightarrow> upstream" where
  "constUpstream rep n key req = rep"

text \<open>Failures for concrete runs: a rate-limit failure as the SDK reports it, one that
  carries the status code only, and a server error with and without a suggested delay.\<close>

definition tooManyRequests :: gemini_error where
  "tooManyRequests =
     \<lparr>message = ''[429 Too Many Requests] Resource has been exhausted'',
      status = Some 429, statusCode = None, errorDetails = None\<rparr>"

definition statusOnly429 :: gemini_error where
  "statusOnly429 =
     \<lparr>message = ''Too Many Requests'', status = Some 429, statusCode = None,
      errorDetails = None\<rparr>"

definition serviceUnavailable :: gemini_error where
  "serviceUnavailable =
     \<lparr>message = ''[503 Service Unavailable] The model is overloaded'',
      status = Some 503, statusCode = None, errorDetails = None\<rparr>"

definition unavailableRetryIn30s :: gemini_error where
  "unavailableRetryIn30s =
     \<lparr>message = ''[503 Service Unavailable] The model is overloaded'',
      status = Some 503, statusCode = None,
      errorDetails = Some [\<lparr>atType = Some ''type.googleapis.com/google.rpc.RetryInfo'',
                             retryDelay = Some ''30s'', retryDelayMillis = 30000\<rparr>]\<rparr>"

definition state0 :: service_state where
  "state0 = \<lparr>currentKeyIndex = 0, lastRequestTime = 0, now = 10000, calls = 0\<rparr>"

text \<open>
  \<open>sleepsAreBackoffs cfg evs\<close>: every sleep in the trace is the backoff of a retry. It comes
  right after an attempt that has retries left and failed with a retryable error without
  429 in its message, and its delay is the one \<open>retryDelay\<close> gives for that attempt and error.
\<close>

fun sleepsAreBackoffs :: "retry_config \<Rightarrow> event list \<Rightarrow> bool" where
  "sleepsAreBackoffs cfg (Attempt i a t (Inl e) # Slept d # evs) =
     (a < maxRetries cfg \<and> isRetryableError e \<and> \<not> has429 e \<and> d = retryDelay cfg a e
      \<and> sleepsAreBackoffs cfg evs)"
| "sleepsAreBackoffs cfg (Slept d # evs) = False"
| "sleepsAreBackoffs cfg (ev # evs) = sleepsAreBackoffs cfg evs"
| "sleepsAreBackoffs cfg [] = True"

text \<open>The key indices of the attempts of a trace, in order.\<close>

fun attemptKeys :: "event list \<Rightarrow> nat list" where
  "attemptKeys [] = []"
| "attemptKeys (Attempt i a t r # evs) = i # attemptKeys evs"
| "attemptKeys (ev # evs) = attemptKeys evs"

text \<open>The delays slept between an attempt and the retry that follows it.\<close>

fun retrySleeps :: "event list \<Rightarrow> int list" where
  "retrySleeps (Attempt i a t r # Slept d # evs) = d # retrySleeps evs"
| "retrySleeps (ev # evs) = retrySleeps evs"
| "retrySleeps [] = []"

section \<open>chatbotController and promptBuilder: the context assembler\<close>

text \<open>
  A JSON value read where the code converts or tests it. The numbers of the model are the
  integers of 32 bits, read signed; fractions and larger numbers are left out.
\<close>

datatype js_value = JUndefined | JNull | JBool bool | JNumber "32 word" | JString string

definition digitValue :: "char \<Rightarrow> int" where
  "digitValue c = int (of_char c) - 48"

definition digitChar :: "nat \<Rightarrow> char" where
  "digitChar d = char_of (48 + d)"

text \<open>The decimal digits of a number, as a template literal prints it.\<close>

fun showNat :: "nat \<Rightarrow> string" where
  "showNat n = (if n < 10 then [digitChar n] else showNat (n div 10) @ [digitChar (n mod 10)])"

declare showNat.simps [simp del]

definition showInt :: "int \<Rightarrow> string" where
  "showInt i = (if i < 0 then CHR ''-'' # showNat (nat (- i)) else showNat (nat i))"

text \<open>\<open>ToString\<close>, which \<open>parseInt\<close> applies to its argument first.\<close>

fun toStringJs :: "js_value \<Rightarrow> string" where
  "toStringJs JUndefined = ''undefined''"
| "toStringJs JNull = ''null''"
| "toStringJs (JBool b) = (if b then ''true'' else ''false'')"
| "toStringJs (JNumber n) = showInt (sint n)"
| "toStringJs (JString s) = s"

text \<open>
  A JavaScript number is a double: an integer of more than 53 bits is rounded to the
  nearest one with 53 significant bits, a tie going to the even one.
\<close>

fun bitLength :: "nat \<Rightarrow> nat" where
  "bitLength n = (if n = 0 then 0 else Suc (bitLength (n div 2)))"

declare bitLength.simps [simp del]

definition roundToDouble :: "nat \<Rightarrow> nat" where
  "roundToDouble v =
     (if bitLength v \<le> 53 then v
      else (let e = bitLength v - 53; q = v div 2 ^ e; r = v mod 2 ^ e; half = 2 ^ (e - 1)
            in (if r > half \<or> (r = half \<and> odd q) then q + 1 else q) * 2 ^ e))"

text \<open>
  \<open>parseInt(s, 10)\<close>: leading white space is skipped, a sign is read, and the longest run
  of decimal digits that follows is the value, as a double; with no digit there the result
  is \<open>NaN\<close>, here \<open>None\<close>. A run of digits whose value, so rounded, reaches 2^1024, which
  JavaScript reads as \<open>Infinity\<close>, is outside the model.
\<close>

definition digitsValue :: "string \<Rightarrow> nat" where
  "digitsValue ds = foldl (\<lambda>acc c. 10 * acc + nat (digitValue c)) 0 ds"

definition parseInt10 :: "string \<Rightarrow> int option" where
  "parseInt10 s =
     (let s1 = dropWhile isWhiteSpace s;
          negative = (case s1 of c # cs \<Rightarrow> c = CHR ''-'' | [] \<Rightarrow> False);
          s2 = (case s1 of c # cs \<Rightarrow> if c = CHR ''-'' \<or> c = CHR ''+'' then cs else s1 | [] \<Rightarrow> s1);
          z = takeWhile isDigit s2
      in if z = [] then None
         else Some (if negative then - int (roundToDouble (digitsValue z))
                    else int (roundToDouble (digitsValue z))))"

text \<open>\<open>s || null\<close> on an optional string.\<close>

definition orNull :: "string option \<Rightarrow> string option" where
  "orNull a = (if truthy a then a else None)"

text \<open>
  \<open>Array.prototype.sort(compareFn)\<close>. The comparator's number is an \<open>int option\<close>, \<open>None\<close>
  for \<open>NaN\<close>, which the sort reads as 0 (\<open>sortCompare\<close>). \<open>consistentOn cmp xs\<close>: read so,
  the comparator is a consistent comparison for the elements of the array, in the sense
  of ECMAScript: equal to itself everywhere, symmetric where it gives 0, and transitive
  for each of the three results.
\<close>

definition sortCompare :: "('a \<Rightarrow> 'a \<Rightarrow> int option) \<Rightarrow> 'a \<Rightarrow> 'a \<Rightarrow> int" where
  "sortCompare cmp a b = (case cmp a b of None \<Rightarrow> 0 | Some v \<Rightarrow> v)"

definition consistentOn :: "('a \<Rightarrow> 'a \<Rightarrow> int option) \<Rightarrow> 'a list \<Rightarrow> bool" where
  "consistentOn cmp xs =
     (\<forall>a\<in>set xs. sortCompare cmp a a = 0 \<and>
        (\<forall>b\<in>set xs. (sortCompare cmp a b = 0 \<longrightarrow> sortCompare cmp b a = 0) \<and>
           (\<forall>c\<in>set xs.
              (sortCompare cmp a b = 0 \<and> sortCompare cmp b c = 0 \<longrightarrow> sortCompare cmp a c = 0) \<and>
              (sortCompare cmp a b < 0 \<and> sortCompare cmp b c < 0 \<longrightarrow> sortCompare cmp a c < 0) \<and>
              (sortCompare cmp a b > 0 \<and> sortCompare cmp b c > 0 \<longrightarrow> sortCompare cmp a c > 0))))"

text \<open>
  The sort is stable. With a consistent comparator the result is the one stable ordering
  by it, which a stable insertion sort computes. With any other comparator the order is
  the engine's own choice: \<open>engine\<close>, a parameter, stands for it.
\<close>

fun insertSorted :: "('a \<Rightarrow> 'a \<Rightarrow> int option) \<Rightarrow> 'a \<Rightarrow> 'a list \<Rightarrow> 'a list" where
  "insertSorted cmp x [] = [x]"
| "insertSorted cmp x (y # ys) =
     (if sortCompare cmp x y \<le> 0 then x # y # ys else y # insertSorted cmp x ys)"

definition arraySort ::
  "(('a \<Rightarrow> 'a \<Rightarrow> int option) \<Rightarrow> 'a list \<Rightarrow> 'a list) \<Rightarrow>
   ('a \<Rightarrow> 'a \<Rightarrow> int option) \<Rightarrow> 'a list \<Rightarrow> 'a list" where
  "arraySort engine cmp xs =
     (if consistentOn cmp xs then foldr (insertSorted cmp) xs [] else engine cmp xs)"

text \<open>
  The rows of the data store. A date field holds the time value that \<open>new Date(x).getTime()\<close>
  gives for it, \<open>None\<close> where that is \<open>NaN\<close> (the field is missing or is no date).
\<close>

record member =
  memberId :: string
  memberName :: "string option"
  memberAccess :: string
  memberImg :: "string option"
  memberExtra :: string

record form_info =
  infoIsPublic :: bool
  infoEventTitle :: "string option"
  infoEventDate :: "int option"
  infoEventDescription :: "string option"
  infoEventVenue :: "string option"
  infoEventTime :: "string option"
  infoEventImg :: "string option"
  infoEventPriority :: js_value
  infoRegistrationLink :: "string option"
  infoIsRegistrationClosed :: bool
  infoIsEventPast :: bool
  infoRelatedEvent :: "string option"

record form =
  formId :: string
  info :: "form_info option"

record event_data =
  eventId :: string
  eventTitle :: string
  eventDate :: "int option"
  eventDescription :: string
  eventVenue :: "string option"
  eventTime :: "string option"
  eventImg :: "string option"
  eventPriority :: int
  registrationLink :: "string option"
  isRegistrationClosed :: bool
  isEventPast :: bool
  relatedEvent :: "string option"

record events_data =
  ongoingEvents :: "event_data list"
  pastEvents :: "event_data list"

record blog =
  blogId :: string
  blogTitle :: string
  blogAuthor :: string
  blogCategory :: "string option"
  blogDesc :: "string option"
  blogDate :: "int option"
  blogLink :: "string option"
  blogSummary :: "string option"

record cert_row =
  certRowId :: string
  certEvent :: "(string option \<times> string option) option"
  certRowMailed :: bool
  certRowImageSrc :: "string option"

record certificate =
  certId :: string
  certEventName :: string
  certEventDescription :: string
  mailed :: bool
  imageSrc :: "string option"

record registered_event =
  regId :: string
  regEventTitle :: string
  regEventDate :: "int option"
  regIsEventPast :: bool

record user_data =
  udName :: "string option"
  udEmail :: "string option"
  udAccess :: "string option"
  certificates :: "certificate list"
  registeredEvents :: "registered_event list"
  registeredEventCount :: nat
  certificateCount :: nat

text \<open>
  The data store as the controller's queries see it; \<open>None\<close> is a query that throws.
\<close>

record store =
  teamRows :: "member list option"
  alumniRows :: "member list option"
  formRows :: "form list option"
  blogRows :: "blog list option"
  certificateRows :: "string option \<Rightarrow> cert_row list option"
  formsByIds :: "string list \<Rightarrow> form list option"

text \<open>
  What the JavaScript runtime and the environment give: \<open>JSON.stringify\<close> at the five
  array types it is applied to, \<open>String.prototype.localeCompare\<close>, the order in which the
  engine's sort leaves an array of events or of blogs when the comparator is not
  consistent on it, the current date as \<open>toLocaleString\<close> prints it, the base prompt text
  and \<open>process.env.DEBUG === 'true'\<close>.
\<close>

record runtime =
  strTeam :: "member list \<Rightarrow> string"
  strEvents :: "event_data list \<Rightarrow> string"
  strBlogs :: "blog list \<Rightarrow> string"
  strCertificates :: "certificate list \<Rightarrow> string"
  strRegistered :: "registered_event list \<Rightarrow> string"
  localeCompare :: "string \<Rightarrow> string \<Rightarrow> int"
  engineSortEvents ::
    "(event_data \<Rightarrow> event_data \<Rightarrow> int option) \<Rightarrow> event_data list \<Rightarrow> event_data list"
  engineSortBlogs :: "(blog \<Rightarrow> blog \<Rightarrow> int option) \<Rightarrow> blog list \<Rightarrow> blog list"
  currentDateTime :: string
  BASE_SYSTEM_PROMPT :: string
  DEBUG :: bool

definition fetchTeamData :: "store \<Rightarrow> member list" where
  "fetchTeamData db = (case teamRows db of Some users \<Rightarrow> users | None \<Rightarrow> [])"

definition fetchAlumniData :: "store \<Rightarrow> member list" where
  "fetchAlumniData db = (case alumniRows db of Some alumni \<Rightarrow> alumni | None \<Rightarrow> [])"

text \<open>\<open>parseInt(form.info.eventPriority, 10) || 999\<close>: \<open>NaN\<close> and 0 are falsy.\<close>

definition priorityOf :: "js_value \<Rightarrow> int" where
  "priorityOf v =
     (case parseInt10 (toStringJs v) of
        None \<Rightarrow> 999
      | Some n \<Rightarrow> if n = 0 then 999 else n)"

text \<open>The object \<open>eventData\<close> built for a public form.\<close>

definition toEventData :: "form \<Rightarrow> form_info \<Rightarrow> event_data" where
  "toEventData f i =
     \<lparr>eventId = formId f,
      eventTitle = the (orElse (infoEventTitle i) (Some ''Untitled Event'')),
      eventDate = infoEventDate i,
      eventDescription = the (orElse (infoEventDescription i) (Some [])),
      eventVenue = orNull (infoEventVenue i),
      eventTime = orNull (infoEventTime i),
      eventImg = orNull (infoEventImg i),
      eventPriority = priorityOf (infoEventPriority i),
      registrationLink = orNull (infoRegistrationLink i),
      isRegistrationClosed = infoIsRegistrationClosed i,
      isEventPast = infoIsEventPast i,
      relatedEvent = orNull (infoRelatedEvent i)\<rparr>"

text \<open>The \<open>forEach\<close> over the forms: ongoing and past events, each in the order of the forms.\<close>

fun collectEvents :: "form list \<Rightarrow> event_data list \<times> event_data list" where
  "collectEvents [] = ([], [])"
| "collectEvents (f # fs) =
     (case collectEvents fs of
        (ongoing, past) \<Rightarrow>
          (case info f of
             None \<Rightarrow> (ongoing, past)
           | Some i \<Rightarrow>
               if infoIsPublic i
               then (if \<not> infoIsEventPast i then (toEventData f i # ongoing, past)
                     else (ongoing, toEventData f i # past))
               else (ongoing, past)))"

text \<open>The comparator of the ongoing events. Where a date is invalid, \<open>getTime()\<close> is \<open>NaN\<close>,
  the test \<open>!==\<close> holds and the difference returned is \<open>NaN\<close>. (\<open>eventTitle\<close> is never
  empty, so \<open>a.eventTitle || ''\<close> is \<open>a.eventTitle\<close>. The differences are written exactly;
  the sort reads the sign of the number only, and the difference of two doubles has the
  sign of their exact difference.)\<close>

definition compareOngoing ::
  "(string \<Rightarrow> string \<Rightarrow> int) \<Rightarrow> event_data \<Rightarrow> event_data \<Rightarrow> int option" where
  "compareOngoing lc a b =
     (if eventPriority a \<noteq> eventPriority b then Some (eventPriority a - eventPriority b)
      else (case (eventDate a, eventDate b) of
              (Some dateA, Some dateB) \<Rightarrow>
                if dateA \<noteq> dateB then Some (dateA - dateB)
                else Some (lc (eventTitle a) (eventTitle b))
            | _ \<Rightarrow> None))"

definition comparePast :: "event_data \<Rightarrow> event_data \<Rightarrow> int option" where
  "comparePast a b =
     (case (eventDate b, eventDate a) of
        (Some dateB, Some dateA) \<Rightarrow> Some (dateB - dateA)
      | _ \<Rightarrow> None)"

definition fetchEventsData :: "runtime \<Rightarrow> store \<Rightarrow> events_data" where
  "fetchEventsData rt db =
     (case formRows db of
        None \<Rightarrow> \<lparr>ongoingEvents = [], pastEvents = []\<rparr>
      | Some forms \<Rightarrow>
          (case collectEvents forms of
             (ongoing, past) \<Rightarrow>
               \<lparr>ongoingEvents =
                  arraySort (engineSortEvents rt) (compareOngoing (localeCompare rt)) ongoing,
                pastEvents = arraySort (engineSortEvents rt) comparePast past\<rparr>))"

definition compareBlogs :: "blog \<Rightarrow> blog \<Rightarrow> int option" where
  "compareBlogs a b =
     (case (blogDate b, blogDate a) of
        (Some dateB, Some dateA) \<Rightarrow> Some (dateB - dateA)
      | _ \<Rightarrow> None)"

definition fetchBlogsData :: "runtime \<Rightarrow> store \<Rightarrow> blog list" where
  "fetchBlogsData rt db =
     (case blogRows db of
        Some blogs \<Rightarrow> arraySort (engineSortBlogs rt) compareBlogs blogs
      | None \<Rightarrow> [])"

definition fetchUserCertificates :: "store \<Rightarrow> string option \<Rightarrow> certificate list" where
  "fetchUserCertificates db email =
     (case certificateRows db email of
        None \<Rightarrow> []
      | Some rows \<Rightarrow>
          map (\<lambda>cert.
                 \<lparr>certId = certRowId cert,
                  certEventName =
                    the (orElse (case certEvent cert of None \<Rightarrow> None | Some ev \<Rightarrow> fst ev)
                                (Some ''Unknown Event'')),
                  certEventDescription =
                    the (orElse (case certEvent cert of None \<Rightarrow> None | Some ev \<Rightarrow> snd ev)
                                (Some [])),
                  mailed = certRowMailed cert,
                  imageSrc = certRowImageSrc cert\<rparr>) rows)"

definition fetchUserRegisteredEvents :: "store \<Rightarrow> string list \<Rightarrow> registered_event list" where
  "fetchUserRegisteredEvents db eventIds =
     (if eventIds = [] then []
      else (case formsByIds db eventIds of
              None \<Rightarrow> []
            | Some forms \<Rightarrow>
                map (\<lambda>f.
                       \<lparr>regId = formId f,
                        regEventTitle =
                          the (orElse (case info f of None \<Rightarrow> None | Some i \<Rightarrow> infoEventTitle i)
                                      (Some ''Unknown Event'')),
                        regEventDate = (case info f of None \<Rightarrow> None | Some i \<Rightarrow> infoEventDate i),
                        regIsEventPast =
                          (case info f of None \<Rightarrow> False | Some i \<Rightarrow> infoIsEventPast i)\<rparr>)
                    forms))"

definition AUTH_REQUIRED_KEYWORDS :: "string list" where
  "AUTH_REQUIRED_KEYWORDS =
     [''my certificate'', ''my certificates'', ''my profile'', ''my events'',
      ''my registration'', ''am i registered'', ''have i registered'', ''my account'',
      ''my details'', ''show my'', ''what events have i'', ''events i registered'',
      ''registered for'']"

definition requiresAuth :: "string \<Rightarrow> bool" where
  "requiresAuth msg =
     (let lowerMessage = toLowerCase msg
      in list_ex (\<lambda>keyword. str_includes lowerMessage keyword) AUTH_REQUIRED_KEYWORDS)"

text \<open>A value inside a template literal: \<open>null\<close> prints as the word.\<close>

definition templ :: "string option \<Rightarrow> string" where
  "templ a = (case a of Some s \<Rightarrow> s | None \<Rightarrow> ''null'')"

text \<open>
  \<open>buildPrompt\<close>. The registered events that the controller passes have neither \<open>info\<close> nor
  \<open>name\<close>, so every mapped name is \<open>undefined\<close>, the filter leaves nothing, and the joined
  names are the fallback \<open>None\<close>.
\<close>

definition buildPrompt ::
  "runtime \<Rightarrow> member list \<Rightarrow> events_data \<Rightarrow> blog list \<Rightarrow> user_data option \<Rightarrow> string" where
  "buildPrompt rt teamData eventsData blogsData userData =
     BASE_SYSTEM_PROMPT rt @ nl @ nl @ ''**CURRENT DATE & TIME:**'' @ nl @
     ''Today is '' @ currentDateTime rt @ '' (IST - Indian Standard Time).'' @ nl @
     ''Use this date to determine if events are upcoming, ongoing, or past.'' @
     (case userData of
        None \<Rightarrow> []
      | Some u \<Rightarrow>
          (let pendingCerts = max 0 (int (registeredEventCount u) - int (certificateCount u));
               eventNames = ''None''
           in nl @ nl @ ''**CURRENT USER CONTEXT:**'' @ nl @
              ''The user is logged in as: '' @ templ (udName u) @ '' ('' @ templ (udEmail u) @ '')'' @ nl @
              ''- Access level: '' @ the (orElse (udAccess u) (Some ''USER'')) @ nl @
              ''- Registered events: '' @ showNat (registeredEventCount u) @
                '' ('' @ eventNames @ '')'' @ nl @
              ''- Certificates earned: '' @ showNat (certificateCount u) @ nl @
              ''- Pending certificates: '' @ showInt pendingCerts @
                '' (registered but not yet issued)'' @ nl @ nl @
              ''When they ask about '' @ [CHR 0x22] @ ''my certificates'' @ [CHR 0x22] @ '' or '' @
                [CHR 0x22] @ ''my events'' @ [CHR 0x22] @
                '', provide their personalized information.'' @ nl @
              ''If they have pending certificates, mention they will be issued within 2-3 days after the event.'' @ nl @
              ''Be warm and personalized in responses to logged-in users.''))"

definition ongoingNoneMarker :: string where
  "ongoingNoneMarker = ''[ONGOING/LIVE EVENTS]: No ongoing events at the moment.''"

text \<open>
  \<open>buildMessageWithContext\<close> appends to \<open>contextMessage\<close> block by block: the team data, the
  ongoing events, the past events, the blogs, the data of a logged-in user, and the query.
\<close>

definition teamBlock :: "runtime \<Rightarrow> member list \<Rightarrow> string" where
  "teamBlock rt teamData =
     (if teamData \<noteq> []
      then ''[TEAM DATA - '' @ showNat (length teamData) @ '' members]:'' @ nl @
           strTeam rt teamData @ nl @ nl
      else [])"

definition ongoingBlock :: "runtime \<Rightarrow> events_data \<Rightarrow> string" where
  "ongoingBlock rt eventsData =
     (if ongoingEvents eventsData \<noteq> []
      then ''[ONGOING/LIVE EVENTS - '' @ showNat (length (ongoingEvents eventsData)) @
             '' active events]:'' @ nl @
           strEvents rt (take 15 (ongoingEvents eventsData)) @ nl @ nl
      else ongoingNoneMarker @ nl @ nl)"

definition pastBlock :: "runtime \<Rightarrow> events_data \<Rightarrow> string" where
  "pastBlock rt eventsData =
     (if pastEvents eventsData \<noteq> []
      then ''[PAST EVENTS - '' @ showNat (length (pastEvents eventsData)) @
             '' completed events]:'' @ nl @
           strEvents rt (take 5 (pastEvents eventsData)) @ nl @ nl
      else [])"

definition blogsBlock :: "runtime \<Rightarrow> blog list \<Rightarrow> string" where
  "blogsBlock rt blogsData =
     (if blogsData \<noteq> []
      then ''[BLOGS - '' @ showNat (length blogsData) @ '' published articles]:'' @ nl @
           strBlogs rt (take 10 blogsData) @ nl @ nl
      else [])"

definition userBlock :: "runtime \<Rightarrow> user_data option \<Rightarrow> string" where
  "userBlock rt userData =
     (case userData of
        None \<Rightarrow> []
      | Some u \<Rightarrow>
          ''[LOGGED IN USER]: '' @ templ (udName u) @ '' ('' @ templ (udEmail u) @ '')'' @ nl @
          (if certificates u \<noteq> []
           then ''[USER'' @ [CHR 0x27] @ ''S CERTIFICATES - '' @ showNat (length (certificates u)) @
                  '']:'' @ nl @
                strCertificates rt (certificates u) @ nl @ nl
           else ''[USER'' @ [CHR 0x27] @ ''S CERTIFICATES]: No certificates earned yet.'' @ nl @ nl) @
          (if registeredEvents u \<noteq> []
           then ''[USER'' @ [CHR 0x27] @ ''S REGISTERED EVENTS - '' @
                  showNat (length (registeredEvents u)) @ '']:'' @ nl @
                strRegistered rt (registeredEvents u) @ nl @ nl
           else []))"

definition buildMessageWithContext ::
  "runtime \<Rightarrow> string \<Rightarrow> member list \<Rightarrow> events_data \<Rightarrow> blog list \<Rightarrow> user_data option \<Rightarrow> string" where
  "buildMessageWithContext rt msg teamData eventsData blogsData userData =
     teamBlock rt teamData @ ongoingBlock rt eventsData @ pastBlock rt eventsData @
     blogsBlock rt blogsData @ userBlock rt userData @ ''[USER QUERY]: '' @ msg"

definition buildAlumniContext :: "runtime \<Rightarrow> string \<Rightarrow> member list \<Rightarrow> string" where
  "buildAlumniContext rt msg alumniData =
     (if alumniData \<noteq> []
      then ''[ALUMNI DATA - '' @ showNat (length alumniData) @ '' members]:'' @ nl @
           strTeam rt alumniData @ nl @ nl
      else ''[ALUMNI DATA]: No alumni data available.'' @ nl @ nl) @
     ''[USER QUERY]: '' @ msg"

section \<open>chatbotController: the two-stage dispatcher\<close>

record chat_request =
  reqMessage :: js_value
  conversationHistory :: "history_msg list"
  reqUser :: "chat_user option"

record metadata =
  teamMembersCount :: nat
  ongoingEventsCount :: nat
  pastEventsCount :: nat
  blogsCount :: nat
  isAuthenticated :: bool
  metaUserName :: "string option"

text \<open>
  The four JSON responses of \<open>processMessage\<close>: status 400 with the error text; status 200
  with \<open>success: false, requiresAuth: true, authPrompt: true\<close> and the fixed sign-in
  message; status 200 with the response text and the metadata; status 500 with the error
  text and, in debug mode, the details.
\<close>

datatype chat_response =
    BadRequest string
  | AuthRequired
  | Answer string metadata
  | ServerError string "string option"

text \<open>What a request does outside the process: the store queries and the generation calls
  (system prompt, user turn, history), in order.\<close>

datatype effect =
    QueryTeam
  | QueryForms
  | QueryBlogs
  | QueryCertificates "string option"
  | QueryFormsByIds "string list"
  | QueryAlumni
  | Generate string string "history_msg list"

text \<open>\<open>generateResponse\<close> as the controller calls it, over whatever state it keeps:
  \<open>Inl\<close> is the message of the error it throws.\<close>

type_synonym 'g generator =
  "string \<Rightarrow> string \<Rightarrow> history_msg list \<Rightarrow> 'g \<Rightarrow> (string + string) \<times> 'g"

definition ALUMINI :: string where
  "ALUMINI = ''ALUMINI''"

definition alumniAddendum :: string where
  "alumniAddendum =
     nl @ nl @ ''**CONTEXT UPDATE:** User is asking about ALUMNI. Use the provided Alumni Data to answer.'' @ nl @
     ''            If the user is asking about a specific alumni member, provide their details from the Alumni Data. If the alumni member is not found, respond politely indicating so.'' @ nl @
     ''            Add [NAV:/alumni] at the END of your response''"

definition serverError :: "runtime \<Rightarrow> string \<Rightarrow> chat_response" where
  "serverError rt err =
     ServerError ''An error occurred while processing your message. Please try again.''
       (if DEBUG rt then Some err else None)"

text \<open>The user-specific data and the queries made for it.\<close>

definition fetchUserData :: "store \<Rightarrow> chat_user option \<Rightarrow> user_data option \<times> effect list" where
  "fetchUserData db user =
     (case user of
        None \<Rightarrow> (None, [])
      | Some u \<Rightarrow>
          (let ids = (case regForm u of Some r \<Rightarrow> r | None \<Rightarrow> []);
               certs = fetchUserCertificates db (userEmail u);
               regs = fetchUserRegisteredEvents db ids
           in (Some \<lparr>udName = userName u, udEmail = userEmail u, udAccess = userAccess u,
                      certificates = certs, registeredEvents = regs,
                      registeredEventCount = length regs, certificateCount = length certs\<rparr>,
               QueryCertificates (userEmail u) # (if ids = [] then [] else [QueryFormsByIds ids]))))"

definition processMessage ::
  "runtime \<Rightarrow> 'g generator \<Rightarrow> store \<Rightarrow> chat_request \<Rightarrow> 'g \<Rightarrow> chat_response \<times> effect list \<times> 'g" where
  "processMessage rt gen db req g =
     (case reqMessage req of
        JString msg \<Rightarrow>
          if msg = [] \<or> length (trim msg) = 0
          then (BadRequest ''Message is required and must be a non-empty string'', [], g)
          else if requiresAuth msg \<and> reqUser req = None
          then (AuthRequired, [], g)
          else
            (let teamData = fetchTeamData db;
                 eventsData = fetchEventsData rt db;
                 blogsData = fetchBlogsData rt db;
                 (userData, userQueries) = fetchUserData db (reqUser req);
                 queries = [QueryTeam, QueryForms, QueryBlogs] @ userQueries;
                 systemPrompt = buildPrompt rt teamData eventsData blogsData userData;
                 userTurn = buildMessageWithContext rt msg teamData eventsData blogsData userData;
                 hist = conversationHistory req;
                 meta = \<lparr>teamMembersCount = length teamData,
                         ongoingEventsCount = length (ongoingEvents eventsData),
                         pastEventsCount = length (pastEvents eventsData),
                         blogsCount = length blogsData,
                         isAuthenticated = (reqUser req \<noteq> None),
                         metaUserName = (case reqUser req of None \<Rightarrow> None
                                         | Some u \<Rightarrow> orNull (userName u))\<rparr>
             in (case gen systemPrompt userTurn hist g of
                   (Inl err, g1) \<Rightarrow>
                     (serverError rt err, queries @ [Generate systemPrompt userTurn hist], g1)
                 | (Inr aiResponse, g1) \<Rightarrow>
                     if aiResponse \<noteq> [] \<and> trim aiResponse = ALUMINI
                     then
                       (let alumniData = fetchAlumniData db;
                            alumniSystemPrompt = systemPrompt @ alumniAddendum;
                            alumniUserMessage = buildAlumniContext rt msg alumniData;
                            effects = queries @ [Generate systemPrompt userTurn hist, QueryAlumni,
                                        Generate alumniSystemPrompt alumniUserMessage hist]
                        in (case gen alumniSystemPrompt alumniUserMessage hist g1 of
                              (Inl err, g2) \<Rightarrow> (serverError rt err, effects, g2)
                            | (Inr aiResponse2, g2) \<Rightarrow> (Answer aiResponse2 meta, effects, g2)))
                     else (Answer aiResponse meta,
                           queries @ [Generate systemPrompt userTurn hist], g1)))
      | _ \<Rightarrow> (BadRequest ''Message is required and must be a non-empty string'', [], g))"


fun storeQueries :: "effect list \<Rightarrow> nat" where
  "storeQueries [] = 0"
| "storeQueries (Generate sp um h # es) = storeQueries es"
| "storeQueries (e # es) = Suc (storeQueries es)"

text \<open>The generator the controller is wired to: \<open>generateResponse\<close> of the Gemini service,
  over the service's state.\<close>

definition geminiGenerator ::
  "string list \<Rightarrow> retry_config \<Rightarrow> upstream \<Rightarrow> service_state generator" where
  "geminiGenerator API_KEYS cfg up sp um hist st =
     (case generateResponse API_KEYS cfg up sp um hist st of (r, st', evs) \<Rightarrow> (r, st'))"

text \<open>An upstream for concrete runs: the n-th call is answered, after 100 ms, with the n-th
  text of a script, and with a server error once the script has run out.\<close>

definition scriptedUpstream :: "string list \<Rightarrow> upstream" where
  "scriptedUpstream script n key req =
     (if n < length script then \<lparr>outcome = Inr (script ! n), took = 100\<rparr>
      else \<lparr>outcome = Inl serviceUnavailable, took = 100\<rparr>)"

text \<open>A generator for concrete runs: it answers with the texts of a script, in turn.\<close>

fun scripted :: "string list generator" where
  "scripted sp um h [] = (Inl ''script exhausted'', [])"
| "scripted sp um h (r # rs) = (Inr r, rs)"

text \<open>A stand-in for \<open>localeCompare\<close> in concrete runs: code units compared in turn.\<close>

fun codeUnitCompare :: "string \<Rightarrow> string \<Rightarrow> int" where
  "codeUnitCompare [] [] = 0"
| "codeUnitCompare [] (b # bs) = - 1"
| "codeUnitCompare (a # as) [] = 1"
| "codeUnitCompare (a # as) (b # bs) =
     (if a = b then codeUnitCompare as bs
      else if (of_char a :: nat) < of_char b then - 1 else 1)"

text \<open>A runtime for concrete runs: arrays printed as their length in brackets, and an
  engine that leaves an array as it is when the comparator is not consistent on it.\<close>

definition testRuntime :: runtime where
  "testRuntime =
     \<lparr>strTeam = (\<lambda>xs. ''[team:'' @ showNat (length xs) @ '']''),
      strEvents = (\<lambda>xs. ''[events:'' @ showNat (length xs) @ '']''),
      strBlogs = (\<lambda>xs. ''[blogs:'' @ showNat (length xs) @ '']''),
      strCertificates = (\<lambda>xs. ''[certificates:'' @ showNat (length xs) @ '']''),
      strRegistered = (\<lambda>xs. ''[registered:'' @ showNat (length xs) @ '']''),
      localeCompare = codeUnitCompare,
      engineSortEvents = (\<lambda>cmp xs. xs),
      engineSortBlogs = (\<lambda>cmp xs. xs),
      currentDateTime = ''Tuesday 3 November 2026 at 10:00 am'',
      BASE_SYSTEM_PROMPT = ''You are AskFED.'',
      DEBUG = False\<rparr>"

definition emptyStore :: store where
  "emptyStore =
     \<lparr>teamRows = Some [], alumniRows = Some [], formRows = Some [], blogRows = Some [],
      certificateRows = (\<lambda>email. Some []), formsByIds = (\<lambda>ids. Some [])\<rparr>"

text \<open>
  The order the specification gives for the ongoing events, in its words: priority
  ascending, then date ascending, then title ascending by the locale-aware comparison.
  \<open>ongoingOrder lc a b\<close>: \<open>a\<close> may stand before \<open>b\<close>.
\<close>

fun dateBefore :: "int option \<Rightarrow> int option \<Rightarrow> bool" where
  "dateBefore (Some x) (Some y) = (x < y)"
| "dateBefore x y = False"

definition ongoingOrder :: "(string \<Rightarrow> string \<Rightarrow> int) \<Rightarrow> event_data \<Rightarrow> event_data \<Rightarrow> bool" where
  "ongoingOrder lc a b =
     (eventPriority a < eventPriority b
      \<or> (eventPriority a = eventPriority b
          \<and> (dateBefore (eventDate a) (eventDate b)
              \<or> (eventDate a = eventDate b \<and> lc (eventTitle a) (eventTitle b) \<le> 0))))"

text \<open>The forms that are public events not yet past.\<close>

definition isOngoingPublic :: "form \<Rightarrow> bool" where
  "isOngoingPublic f =
     (case info f of Some i \<Rightarrow> infoIsPublic i \<and> \<not> infoIsEventPast i | None \<Rightarrow> False)"


text \<open>Forms for concrete runs: a public ongoing event with the given title, priority value
  and date.\<close>

definition sampleForm :: "string \<Rightarrow> string \<Rightarrow> js_value \<Rightarrow> int option \<Rightarrow> form" where
  "sampleForm fid title priority date =
     \<lparr>formId = fid,
      info = Some \<lparr>infoIsPublic = True, infoEventTitle = Some title, infoEventDate = date,
                   infoEventDescription = None, infoEventVenue = None, infoEventTime = None,
                   infoEventImg = None, infoEventPriority = priority,
                   infoRegistrationLink = None, infoIsRegistrationClosed = False,
                   infoIsEventPast = False, infoRelatedEvent = None\<rparr>\<rparr>"

definition storeWithForms :: "form list \<Rightarrow> store" where
  "storeWithForms forms = emptyStore\<lparr>formRows := Some forms\<rparr>"

section \<open>Theorems\<close>

subsection \<open>The retry orchestrator\<close>

lemma attemptTimes_append: "attemptTimes (xs @ ys) = attemptTimes xs @ attemptTimes ys"
  by (induction xs rule: attemptTimes.induct) auto

lemma rotations_append: "rotations (xs @ ys) = rotations xs + rotations ys"
  by (induction xs rule: rotations.induct) auto

lemma sleep_fields [simp]:
  "lastRequestTime (sleep d st) = lastRequestTime st"
  "currentKeyIndex (sleep d st) = currentKeyIndex st"
  "calls (sleep d st) = calls st"
  "now (sleep d st) = now st + timerDelay d"
  by (simp_all add: sleep_def)

lemma afterAttempt_fields [simp]:
  "lastRequestTime (afterAttempt up req key st) = now st"
  "currentKeyIndex (afterAttempt up req key st) = currentKeyIndex st"
  "calls (afterAttempt up req key st) = Suc (calls st)"
  "now (afterAttempt up req key st) = now st + took (up (calls st) key req)"
  by (simp_all add: afterAttempt_def)

lemma attemptLoop_stop:
  "\<not> attempt \<le> maxRetries cfg \<Longrightarrow>
   attemptLoop cfg up req key attempt le st = (KeyFailed le, st, [])"
  by (subst attemptLoop.simps) simp

lemma attemptLoop_ok:
  "attempt \<le> maxRetries cfg \<Longrightarrow> outcome (up (calls st) key req) = Inr response \<Longrightarrow>
   attemptLoop cfg up req key attempt le st =
     (Returned response, afterAttempt up req key st,
      [Attempt (currentKeyIndex st) attempt (now st) (Inr response)])"
  by (subst attemptLoop.simps) (simp add: Let_def afterAttempt_def)

lemma attemptLoop_break:
  "attempt \<le> maxRetries cfg \<Longrightarrow> outcome (up (calls st) key req) = Inl e \<Longrightarrow>
   rotatesImmediately e \<Longrightarrow>
   attemptLoop cfg up req key attempt le st =
     (KeyFailed (Some e), afterAttempt up req key st,
      [Attempt (currentKeyIndex st) attempt (now st) (Inl e)])"
  by (subst attemptLoop.simps) (simp add: Let_def afterAttempt_def rotatesImmediately_def)

lemma attemptLoop_retry:
  "attempt < maxRetries cfg \<Longrightarrow> outcome (up (calls st) key req) = Inl e \<Longrightarrow>
   \<not> rotatesImmediately e \<Longrightarrow> isRetryableError e \<Longrightarrow>
   attemptLoop cfg up req key attempt le st =
     withEvents [Attempt (currentKeyIndex st) attempt (now st) (Inl e),
                 Slept (retryDelay cfg attempt e)]
       (attemptLoop cfg up req key (Suc attempt) (Some e)
          (sleep (retryDelay cfg attempt e) (afterAttempt up req key st)))"
  by (subst attemptLoop.simps) (simp add: Let_def afterAttempt_def rotatesImmediately_def)

lemma attemptLoop_next:
  "attempt \<le> maxRetries cfg \<Longrightarrow> outcome (up (calls st) key req) = Inl e \<Longrightarrow>
   \<not> rotatesImmediately e \<Longrightarrow> \<not> (attempt < maxRetries cfg \<and> isRetryableError e) \<Longrightarrow>
   attemptLoop cfg up req key attempt le st =
     withEvents [Attempt (currentKeyIndex st) attempt (now st) (Inl e)]
       (attemptLoop cfg up req key (Suc attempt) (Some e) (afterAttempt up req key st))"
  by (subst attemptLoop.simps) (auto simp add: Let_def afterAttempt_def rotatesImmediately_def)

lemma outcome_cases [case_names ok brk retry goon]:
  obtains
    (ok) response where "outcome (up (calls st) key req) = Inr response"
  | (brk) e where "outcome (up (calls st) key req) = Inl e" "rotatesImmediately e"
  | (retry) e where "outcome (up (calls st) key req) = Inl e" "\<not> rotatesImmediately e"
      "attempt < maxRetries cfg" "isRetryableError e"
  | (goon) e where "outcome (up (calls st) key req) = Inl e" "\<not> rotatesImmediately e"
      "\<not> (attempt < maxRetries cfg \<and> isRetryableError e)"
  by (cases "outcome (up (calls st) key req)") auto

lemma attemptLoop_first:
  assumes "attempt \<le> maxRetries cfg"
  shows "\<exists>x s evs. attemptLoop cfg up req key attempt le st =
           (x, s, Attempt (currentKeyIndex st) attempt (now st) (outcome (up (calls st) key req)) # evs)"
proof (cases rule: outcome_cases[where up=up and st=st and key=key and req=req
        and attempt=attempt and cfg=cfg])
  case (ok response)
  with assms show ?thesis by (simp add: attemptLoop_ok)
next
  case (brk e)
  with assms show ?thesis by (simp add: attemptLoop_break)
next
  case (retry e)
  obtain x s evs where "attemptLoop cfg up req key (Suc attempt) (Some e)
          (sleep (retryDelay cfg attempt e) (afterAttempt up req key st)) = (x, s, evs)"
    using prod_cases3 by blast
  with retry show ?thesis
    by (simp add: attemptLoop_retry withEvents_def)
next
  case (goon e)
  obtain x s evs where "attemptLoop cfg up req key (Suc attempt) (Some e)
          (afterAttempt up req key st) = (x, s, evs)"
    using prod_cases3 by blast
  with goon assms show ?thesis
    by (simp add: attemptLoop_next withEvents_def)
qed

lemma attemptLoop_last:
  "attempt \<le> maxRetries cfg \<Longrightarrow> attemptLoop cfg up req key attempt le st = (x, s, evs) \<Longrightarrow>
   attemptTimes evs \<noteq> [] \<and> lastRequestTime s = last (attemptTimes evs) \<and>
   currentKeyIndex s = currentKeyIndex st"
proof (induction n \<equiv> "maxRetries cfg - attempt" arbitrary: attempt le st x s evs)
  case 0
  then have top: "\<not> Suc attempt \<le> maxRetries cfg" by simp
  show ?case
  proof (cases rule: outcome_cases[where up=up and st=st and key=key and req=req
        and attempt=attempt and cfg=cfg])
    case (ok response)
    with "0.prems" show ?thesis by (auto simp: attemptLoop_ok)
  next
    case (brk e)
    with "0.prems" show ?thesis by (auto simp: attemptLoop_break)
  next
    case (retry e)
    with top show ?thesis by simp
  next
    case (goon e)
    with "0.prems" top show ?thesis
      by (auto simp: attemptLoop_next withEvents_def attemptLoop_stop)
  qed
next
  case (Suc n)
  then have more: "Suc attempt \<le> maxRetries cfg" and n: "n = maxRetries cfg - Suc attempt"
    by simp_all
  show ?case
  proof (cases rule: outcome_cases[where up=up and st=st and key=key and req=req
        and attempt=attempt and cfg=cfg])
    case (ok response)
    with Suc.prems show ?thesis by (auto simp: attemptLoop_ok)
  next
    case (brk e)
    with Suc.prems show ?thesis by (auto simp: attemptLoop_break)
  next
    case (retry e)
    obtain x' s' evs' where rec: "attemptLoop cfg up req key (Suc attempt) (Some e)
          (sleep (retryDelay cfg attempt e) (afterAttempt up req key st)) = (x', s', evs')"
      using prod_cases3 by blast
    from Suc.hyps(1)[OF n more rec] rec Suc.prems(2) retry
    show ?thesis
      by (auto simp: attemptLoop_retry withEvents_def)
  next
    case (goon e)
    obtain x' s' evs' where rec: "attemptLoop cfg up req key (Suc attempt) (Some e)
          (afterAttempt up req key st) = (x', s', evs')"
      using prod_cases3 by blast
    from Suc.hyps(1)[OF n more rec] rec Suc.prems goon
    show ?thesis
      by (auto simp: attemptLoop_next withEvents_def)
  qed
qed

lemma keyLoop_done:
  "\<not> k < length K \<Longrightarrow> keyLoop K cfg up req k le st = (Inl (exhaustedMessage le), st, [])"
  by (subst keyLoop.simps) simp

lemma keyLoop_returned:
  "k < length K \<Longrightarrow>
   attemptLoop cfg up req (getCurrentKey K st) 0 le st = (Returned response, st1, evs) \<Longrightarrow>
   keyLoop K cfg up req k le st = (Inr response, st1, evs)"
  by (subst keyLoop.simps) simp

lemma keyLoop_rotate:
  "Suc k < length K \<Longrightarrow>
   attemptLoop cfg up req (getCurrentKey K st) 0 le st = (KeyFailed le', st1, evs) \<Longrightarrow>
   keyLoop K cfg up req k le st =
     withEvents (evs @ [Rotated (currentKeyIndex st1)
                          (currentKeyIndex (snd (rotateToNextKey K st1)))])
       (keyLoop K cfg up req (Suc k) le' (snd (rotateToNextKey K st1)))"
  by (subst keyLoop.simps) simp

lemma keyLoop_final:
  "k < length K \<Longrightarrow> \<not> Suc k < length K \<Longrightarrow>
   attemptLoop cfg up req (getCurrentKey K st) 0 le st = (KeyFailed le', st1, evs) \<Longrightarrow>
   keyLoop K cfg up req k le st = (Inl (exhaustedMessage le'), st1, evs)"
  by (subst keyLoop.simps) (simp add: keyLoop_done withEvents_def)

lemma rotate_fields [simp]:
  "lastRequestTime (snd (rotateToNextKey K st)) = lastRequestTime st"
  "calls (snd (rotateToNextKey K st)) = calls st"
  "now (snd (rotateToNextKey K st)) = now st"
  "currentKeyIndex (snd (rotateToNextKey K st)) = (currentKeyIndex st + 1) mod length K"
  by (simp_all add: rotateToNextKey_def Let_def)

lemma keyLoop_first:
  assumes "k < length K"
  shows "\<exists>x s evs. keyLoop K cfg up req k le st =
           (x, s, Attempt (currentKeyIndex st) 0 (now st)
                    (outcome (up (calls st) (getCurrentKey K st) req)) # evs)"
proof -
  obtain x1 st1 evs1 where a: "attemptLoop cfg up req (getCurrentKey K st) 0 le st =
      (x1, st1, Attempt (currentKeyIndex st) 0 (now st)
                    (outcome (up (calls st) (getCurrentKey K st) req)) # evs1)"
    using attemptLoop_first[of 0 cfg up req "getCurrentKey K st" le st] by auto
  show ?thesis
  proof (cases x1)
    case (Returned response)
    with a assms show ?thesis by (simp add: keyLoop_returned)
  next
    case (KeyFailed le')
    show ?thesis
    proof (cases "Suc k < length K")
      case True
      obtain x2 s2 evs2 where "keyLoop K cfg up req (Suc k) le' (snd (rotateToNextKey K st1)) =
          (x2, s2, evs2)"
        using prod_cases3 by blast
      with a KeyFailed True show ?thesis
        by (simp add: keyLoop_rotate withEvents_def)
    next
      case False
      with a KeyFailed assms show ?thesis by (simp add: keyLoop_final)
    qed
  qed
qed

lemma keyLoop_last:
  "k < length K \<Longrightarrow> keyLoop K cfg up req k le st = (x, s, evs) \<Longrightarrow>
   attemptTimes evs \<noteq> [] \<and> lastRequestTime s = last (attemptTimes evs)"
proof (induction n \<equiv> "length K - Suc k" arbitrary: k le st x s evs)
  case 0
  then have fin: "\<not> Suc k < length K" by simp
  obtain x1 st1 evs1 where a: "attemptLoop cfg up req (getCurrentKey K st) 0 le st = (x1, st1, evs1)"
    using prod_cases3 by blast
  from attemptLoop_last[OF _ a] have l: "attemptTimes evs1 \<noteq> []"
    "lastRequestTime st1 = last (attemptTimes evs1)" by simp_all
  show ?case
  proof (cases x1)
    case (Returned response)
    with a "0.prems" l show ?thesis by (simp add: keyLoop_returned)
  next
    case (KeyFailed le')
    with a "0.prems" l fin show ?thesis by (simp add: keyLoop_final)
  qed
next
  case (Suc n)
  then have more: "Suc k < length K" and n: "n = length K - Suc (Suc k)" by simp_all
  obtain x1 st1 evs1 where a: "attemptLoop cfg up req (getCurrentKey K st) 0 le st = (x1, st1, evs1)"
    using prod_cases3 by blast
  from attemptLoop_last[OF _ a] have l: "attemptTimes evs1 \<noteq> []"
    "lastRequestTime st1 = last (attemptTimes evs1)" by simp_all
  show ?case
  proof (cases x1)
    case (Returned response)
    with a Suc.prems l show ?thesis by (simp add: keyLoop_returned)
  next
    case (KeyFailed le')
    obtain x2 s2 evs2 where rec: "keyLoop K cfg up req (Suc k) le' (snd (rotateToNextKey K st1)) =
          (x2, s2, evs2)"
      using prod_cases3 by blast
    from Suc.hyps(1)[OF n more rec] rec a KeyFailed more Suc.prems(2)
    show ?thesis
      by (auto simp: keyLoop_rotate withEvents_def attemptTimes_append)
  qed
qed

lemma getCurrentKey_keyAt [simp]: "getCurrentKey K st = keyAt K (currentKeyIndex st)"
  by (simp add: getCurrentKey_def)

lemma generateResponse_keyLoop:
  "generateResponse K cfg up sp um hist st =
     withEvents (throttleWait st)
       (keyLoop K cfg up
          \<lparr>systemInstruction = sp, history = buildHistory hist, userMessage = um\<rparr>
          0 None (afterThrottle st))"
  by (simp add: generateResponse_def throttleWait_def afterThrottle_def Let_def withEvents_def)

lemma afterThrottle_fields [simp]:
  "currentKeyIndex (afterThrottle st) = currentKeyIndex st"
  "calls (afterThrottle st) = calls st"
  "lastRequestTime (afterThrottle st) = lastRequestTime st"
  by (simp_all add: afterThrottle_def)

lemma follows_throttle:
  "follows up K req (now st) n i (throttleWait st @ evs) =
   follows up K req (now (afterThrottle st)) n i evs"
  by (simp add: throttleWait_def afterThrottle_def)

lemma follows_attemptLoop:
  "attemptLoop cfg up req (keyAt K (currentKeyIndex st)) attempt le st = (x, s, evs) \<Longrightarrow>
   follows up K req (now st) (calls st) (currentKeyIndex st) (evs @ rest) =
   follows up K req (now s) (calls s) (currentKeyIndex s) rest"
proof (induction n \<equiv> "Suc (maxRetries cfg) - attempt" arbitrary: attempt le st x s evs)
  case 0
  then have "\<not> attempt \<le> maxRetries cfg" by simp
  with "0.prems" show ?case by (simp add: attemptLoop_stop)
next
  case (Suc n)
  then have le: "attempt \<le> maxRetries cfg" and n: "n = Suc (maxRetries cfg) - Suc attempt"
    by simp_all
  let ?key = "keyAt K (currentKeyIndex st)"
  show ?case
  proof (cases rule: outcome_cases[where up=up and st=st and key="?key" and req=req
        and attempt=attempt and cfg=cfg])
    case (ok response)
    with Suc.prems le show ?thesis by (auto simp: attemptLoop_ok)
  next
    case (brk e)
    with Suc.prems le show ?thesis by (auto simp: attemptLoop_break)
  next
    case (retry e)
    let ?st' = "sleep (retryDelay cfg attempt e) (afterAttempt up req ?key st)"
    obtain x' s' evs' where rec: "attemptLoop cfg up req (keyAt K (currentKeyIndex ?st'))
          (Suc attempt) (Some e) ?st' = (x', s', evs')"
      using prod_cases3 by blast
    from rec Suc.prems retry have eq: "s = s'"
      "evs = Attempt (currentKeyIndex st) attempt (now st) (Inl e) #
             Slept (retryDelay cfg attempt e) # evs'"
      by (auto simp: attemptLoop_retry withEvents_def)
    show ?thesis
      unfolding eq using Suc.hyps(1)[OF n rec] retry(1) by simp
  next
    case (goon e)
    let ?st' = "afterAttempt up req ?key st"
    obtain x' s' evs' where rec: "attemptLoop cfg up req (keyAt K (currentKeyIndex ?st'))
          (Suc attempt) (Some e) ?st' = (x', s', evs')"
      using prod_cases3 by blast
    from rec Suc.prems goon le have eq: "s = s'"
      "evs = Attempt (currentKeyIndex st) attempt (now st) (Inl e) # evs'"
      by (auto simp: attemptLoop_next withEvents_def)
    show ?thesis
      unfolding eq using Suc.hyps(1)[OF n rec] goon(1) by simp
  qed
qed

lemma follows_keyLoop:
  "keyLoop K cfg up req k le st = (x, s, evs) \<Longrightarrow>
   follows up K req (now st) (calls st) (currentKeyIndex st) (evs @ rest) =
   follows up K req (now s) (calls s) (currentKeyIndex s) rest"
proof (induction n \<equiv> "length K - k" arbitrary: k le st x s evs)
  case 0
  then have "\<not> k < length K" by simp
  with "0.prems" show ?case by (simp add: keyLoop_done)
next
  case (Suc n)
  then have k: "k < length K" and n: "n = length K - Suc k" by simp_all
  obtain x1 st1 evs1 where a: "attemptLoop cfg up req (keyAt K (currentKeyIndex st)) 0 le st =
      (x1, st1, evs1)"
    using prod_cases3 by blast
  note f1 = follows_attemptLoop[OF a]
  show ?case
  proof (cases x1)
    case (Returned response)
    with a k Suc.prems f1 show ?thesis by (auto simp: keyLoop_returned)
  next
    case (KeyFailed le')
    show ?thesis
    proof (cases "Suc k < length K")
      case False
      with a k KeyFailed Suc.prems f1 show ?thesis by (auto simp: keyLoop_final)
    next
      case True
      let ?st2 = "snd (rotateToNextKey K st1)"
      obtain x2 s2 evs2 where rec: "keyLoop K cfg up req (Suc k) le' ?st2 = (x2, s2, evs2)"
        using prod_cases3 by blast
      from keyLoop_rotate[OF True, of cfg up req st le le' st1 evs1] a KeyFailed rec Suc.prems
      have eq: "s = s2"
        "evs = evs1 @ Rotated (currentKeyIndex st1) (currentKeyIndex ?st2) # evs2"
        by (auto simp: withEvents_def)
      show ?thesis
        unfolding eq using f1[of "Rotated (currentKeyIndex st1) (currentKeyIndex ?st2) # evs2 @ rest"]
          Suc.hyps(1)[OF n rec]
        by simp
    qed
  qed
qed

lemma has429_message: "has429 e \<Longrightarrow> message e \<noteq> []"
  by (auto simp: has429_def)

lemma rotatesImmediately_has429: "rotatesImmediately e = has429 e"
  by (auto simp: rotatesImmediately_def has429_def isRetryableError_def Let_def)

lemma rotate_iter:
  "(((i + 1) mod n) + m) mod n = (i + Suc m) mod (n::nat)"
  by (simp add: mod_add_left_eq)

lemma sleepsAreBackoffs_Attempt:
  "\<forall>d r'. evs \<noteq> Slept d # r' \<Longrightarrow>
   sleepsAreBackoffs cfg (Attempt i a t r # evs) = sleepsAreBackoffs cfg evs"
proof (cases evs)
  case Nil
  then show ?thesis by (cases r) simp_all
next
  case (Cons ev evs')
  assume "\<forall>d r'. evs \<noteq> Slept d # r'"
  with Cons show ?thesis by (cases ev; cases r) simp_all
qed

lemma sleepsAreBackoffs_Rotated:
  "sleepsAreBackoffs cfg (Rotated p q # evs) = sleepsAreBackoffs cfg evs"
  by simp

lemma sleepsAreBackoffs_attemptLoop:
  "attemptLoop cfg up req key attempt le st = (x, s, evs) \<Longrightarrow>
   \<forall>d r'. rest \<noteq> Slept d # r' \<Longrightarrow>
   sleepsAreBackoffs cfg (evs @ rest) = sleepsAreBackoffs cfg rest"
proof (induction n \<equiv> "Suc (maxRetries cfg) - attempt" arbitrary: attempt le st x s evs)
  case 0
  then have "\<not> attempt \<le> maxRetries cfg" by simp
  with "0.prems" show ?case by (simp add: attemptLoop_stop)
next
  case (Suc n)
  then have le: "attempt \<le> maxRetries cfg" and n: "n = Suc (maxRetries cfg) - Suc attempt"
    by simp_all
  show ?case
  proof (cases rule: outcome_cases[where up=up and st=st and key=key and req=req
        and attempt=attempt and cfg=cfg])
    case (ok response)
    with Suc.prems le show ?thesis
      by (auto simp: attemptLoop_ok sleepsAreBackoffs_Attempt)
  next
    case (brk e)
    with Suc.prems le have "evs = [Attempt (currentKeyIndex st) attempt (now st) (Inl e)]"
      by (auto simp: attemptLoop_break)
    with Suc.prems(2) show ?thesis
      by (simp add: sleepsAreBackoffs_Attempt del: sleepsAreBackoffs.simps)
  next
    case (retry e)
    let ?st' = "sleep (retryDelay cfg attempt e) (afterAttempt up req key st)"
    obtain x' s' evs' where rec: "attemptLoop cfg up req key (Suc attempt) (Some e) ?st' =
          (x', s', evs')"
      using prod_cases3 by blast
    from rec Suc.prems retry have eq:
      "evs = Attempt (currentKeyIndex st) attempt (now st) (Inl e) #
             Slept (retryDelay cfg attempt e) # evs'"
      by (auto simp: attemptLoop_retry withEvents_def)
    from retry(2) have "\<not> has429 e" by (simp add: rotatesImmediately_has429)
    with retry Suc.hyps(1)[OF n rec Suc.prems(2)] show ?thesis
      unfolding eq by simp
  next
    case (goon e)
    let ?st' = "afterAttempt up req key st"
    obtain x' s' evs' where rec: "attemptLoop cfg up req key (Suc attempt) (Some e) ?st' =
          (x', s', evs')"
      using prod_cases3 by blast
    from rec Suc.prems goon le have eq:
      "evs = Attempt (currentKeyIndex st) attempt (now st) (Inl e) # evs'"
      by (auto simp: attemptLoop_next withEvents_def)
    have head: "\<forall>d r'. evs' @ rest \<noteq> Slept d # r'"
    proof (cases "Suc attempt \<le> maxRetries cfg")
      case True
      from attemptLoop_first[OF True, of up req key "Some e" ?st'] rec
      obtain r1 evs1 where "evs' = Attempt (currentKeyIndex ?st') (Suc attempt) (now ?st') r1 # evs1"
        by auto
      then show ?thesis by simp
    next
      case False
      with rec have "evs' = []" by (simp add: attemptLoop_stop)
      with Suc.prems(2) show ?thesis by simp
    qed
    show ?thesis
      unfolding eq using Suc.hyps(1)[OF n rec Suc.prems(2)] head
      by (simp add: sleepsAreBackoffs_Attempt del: sleepsAreBackoffs.simps)
  qed
qed

lemma sleepsAreBackoffs_keyLoop:
  "keyLoop K cfg up req k le st = (x, s, evs) \<Longrightarrow>
   \<forall>d r'. rest \<noteq> Slept d # r' \<Longrightarrow>
   sleepsAreBackoffs cfg (evs @ rest) = sleepsAreBackoffs cfg rest"
proof (induction n \<equiv> "length K - k" arbitrary: k le st x s evs)
  case 0
  then have "\<not> k < length K" by simp
  with "0.prems" show ?case by (simp add: keyLoop_done)
next
  case (Suc n)
  then have k: "k < length K" and n: "n = length K - Suc k" by simp_all
  obtain x1 st1 evs1 where a: "attemptLoop cfg up req (getCurrentKey K st) 0 le st =
      (x1, st1, evs1)"
    using prod_cases3 by blast
  note f1 = sleepsAreBackoffs_attemptLoop[OF a]
  show ?case
  proof (cases x1)
    case (Returned response)
    with a k Suc.prems f1 show ?thesis by (auto simp: keyLoop_returned)
  next
    case (KeyFailed le')
    show ?thesis
    proof (cases "Suc k < length K")
      case False
      with a k KeyFailed Suc.prems f1 show ?thesis by (auto simp: keyLoop_final)
    next
      case True
      let ?st2 = "snd (rotateToNextKey K st1)"
      obtain x2 s2 evs2 where rec: "keyLoop K cfg up req (Suc k) le' ?st2 = (x2, s2, evs2)"
        using prod_cases3 by blast
      from keyLoop_rotate[OF True, of cfg up req st le le' st1 evs1] a KeyFailed rec Suc.prems
      have eq: "evs = evs1 @ Rotated (currentKeyIndex st1) (currentKeyIndex ?st2) # evs2"
        by (auto simp: withEvents_def)
      have "sleepsAreBackoffs cfg (evs1 @ Rotated (currentKeyIndex st1) (currentKeyIndex ?st2) #
              evs2 @ rest) =
            sleepsAreBackoffs cfg (Rotated (currentKeyIndex st1) (currentKeyIndex ?st2) #
              evs2 @ rest)"
        by (rule f1) simp
      with Suc.hyps(1)[OF n rec Suc.prems(2)] show ?thesis
        unfolding eq by simp
    qed
  qed
qed

text \<open>
  C1 (as amended). For every dispatch with at least one key, the wait for the spacing runs
  once, before the first attempt. The trace is that wait, when the spacing has not yet
  elapsed, then the first attempt, on the key under the cursor, and what comes after it;
  from the first attempt on, every sleep in the trace is the backoff of a retry
  (\<open>sleepsAreBackoffs\<close>), so no later attempt is delayed for the spacing. Each attempt starts
  at the clock of the replay of the trace (\<open>follows\<close>): the time of the dispatch, plus the
  sleeps and the durations of the calls before it. When the last recorded attempt is not in
  the future, the first attempt starts at the later of the current time and that record
  plus the minimum interval. The time recorded at the end of the dispatch is the start of
  its last attempt.
\<close>

theorem throttle_once_per_dispatch:
  assumes "API_KEYS \<noteq> []"
  shows "(\<exists>r rest.
           snd (snd (generateResponse API_KEYS cfg up sp um hist st)) =
             (if now st - lastRequestTime st < MIN_REQUEST_INTERVAL_MS
              then [Slept (MIN_REQUEST_INTERVAL_MS - (now st - lastRequestTime st))] else []) @
             Attempt (currentKeyIndex st) 0
               (if now st - lastRequestTime st < MIN_REQUEST_INTERVAL_MS
                then now st + timerDelay (MIN_REQUEST_INTERVAL_MS - (now st - lastRequestTime st))
                else now st) r # rest
           \<and> sleepsAreBackoffs cfg (Attempt (currentKeyIndex st) 0
               (if now st - lastRequestTime st < MIN_REQUEST_INTERVAL_MS
                then now st + timerDelay (MIN_REQUEST_INTERVAL_MS - (now st - lastRequestTime st))
                else now st) r # rest))
       \<and> follows up API_KEYS
            \<lparr>systemInstruction = sp, history = buildHistory hist, userMessage = um\<rparr>
            (now st) (calls st) (currentKeyIndex st)
            (snd (snd (generateResponse API_KEYS cfg up sp um hist st)))
       \<and> (lastRequestTime st \<le> now st \<longrightarrow>
            hd (attemptTimes (snd (snd (generateResponse API_KEYS cfg up sp um hist st)))) =
              max (now st) (lastRequestTime st + MIN_REQUEST_INTERVAL_MS))
       \<and> lastRequestTime (fst (snd (generateResponse API_KEYS cfg up sp um hist st))) =
           last (attemptTimes (snd (snd (generateResponse API_KEYS cfg up sp um hist st))))"
proof -
  let ?req = "\<lparr>systemInstruction = sp, history = buildHistory hist, userMessage = um\<rparr>"
  let ?st1 = "afterThrottle st"
  let ?t0 = "if now st - lastRequestTime st < MIN_REQUEST_INTERVAL_MS
             then now st + timerDelay (MIN_REQUEST_INTERVAL_MS - (now st - lastRequestTime st))
             else now st"
  from assms have k: "0 < length API_KEYS" by simp
  obtain x s evs where r: "keyLoop API_KEYS cfg up ?req 0 None ?st1 = (x, s, evs)"
    using prod_cases3 by blast
  have g: "generateResponse API_KEYS cfg up sp um hist st = (x, s, throttleWait st @ evs)"
    using r by (simp add: generateResponse_keyLoop withEvents_def)
  have t0: "now ?st1 = ?t0" by (simp add: afterThrottle_def)
  from keyLoop_first[OF k, of cfg up ?req None ?st1] r t0
  obtain r0 rest where f: "evs = Attempt (currentKeyIndex st) 0 ?t0 r0 # rest"
    by auto
  have sab: "sleepsAreBackoffs cfg evs"
    using sleepsAreBackoffs_keyLoop[OF r, of "[]"] by simp
  have fo: "follows up API_KEYS ?req (now st) (calls st) (currentKeyIndex st) (throttleWait st @ evs)"
    using follows_keyLoop[OF r, of "[]"] by (simp add: follows_throttle)
  from keyLoop_last[OF k r] have l: "lastRequestTime s = last (attemptTimes evs)"
    and ne: "attemptTimes evs \<noteq> []" by simp_all
  have tw: "attemptTimes (throttleWait st) = []" by (simp add: throttleWait_def)
  have first: "lastRequestTime st \<le> now st \<longrightarrow>
      ?t0 = max (now st) (lastRequestTime st + MIN_REQUEST_INTERVAL_MS)"
    by (auto simp: timerDelay_def MIN_REQUEST_INTERVAL_MS_def max_def)
  have 1: "\<exists>r rest.
           snd (snd (generateResponse API_KEYS cfg up sp um hist st)) =
             (if now st - lastRequestTime st < MIN_REQUEST_INTERVAL_MS
              then [Slept (MIN_REQUEST_INTERVAL_MS - (now st - lastRequestTime st))] else []) @
             Attempt (currentKeyIndex st) 0 ?t0 r # rest
           \<and> sleepsAreBackoffs cfg (Attempt (currentKeyIndex st) 0 ?t0 r # rest)"
    unfolding g using f sab by (auto simp: throttleWait_def)
  have 2: "follows up API_KEYS ?req (now st) (calls st) (currentKeyIndex st)
            (snd (snd (generateResponse API_KEYS cfg up sp um hist st)))"
    unfolding g using fo by simp
  have 3: "lastRequestTime st \<le> now st \<longrightarrow>
            hd (attemptTimes (snd (snd (generateResponse API_KEYS cfg up sp um hist st)))) =
              max (now st) (lastRequestTime st + MIN_REQUEST_INTERVAL_MS)"
    unfolding g using f first by (simp add: attemptTimes_append tw)
  have 4: "lastRequestTime (fst (snd (generateResponse API_KEYS cfg up sp um hist st))) =
           last (attemptTimes (snd (snd (generateResponse API_KEYS cfg up sp um hist st))))"
    unfolding g using l ne by (simp add: attemptTimes_append tw)
  from 1 2 3 4 show ?thesis by blast
qed

text \<open>
  The amended C1 with two rate-limited keys, 100 ms after the last recorded attempt: a
  wait of 400 ms, the first attempt, the rotation, and the second attempt 20 ms after the
  first, with no wait before it.
\<close>

theorem throttle_once_per_dispatch_witness:
  "snd (snd (generateResponse [''key-one'', ''key-two''] RETRY_CONFIG
      (constUpstream \<lparr>outcome = Inl tooManyRequests, took = 20\<rparr>) ''sys'' ''hi'' []
      \<lparr>currentKeyIndex = 0, lastRequestTime = 9900, now = 10000, calls = 0\<rparr>)) =
     [Slept 400, Attempt 0 0 10400 (Inl tooManyRequests), Rotated 0 1,
      Attempt 1 0 10420 (Inl tooManyRequests)]
   \<and> follows (constUpstream \<lparr>outcome = Inl tooManyRequests, took = 20\<rparr>)
       [''key-one'', ''key-two'']
       \<lparr>systemInstruction = ''sys'', history = buildHistory [], userMessage = ''hi''\<rparr>
       10000 0 0
       [Slept 400, Attempt 0 0 10400 (Inl tooManyRequests), Rotated 0 1,
        Attempt 1 0 10420 (Inl tooManyRequests)]
   \<and> lastRequestTime (fst (snd (generateResponse [''key-one'', ''key-two''] RETRY_CONFIG
      (constUpstream \<lparr>outcome = Inl tooManyRequests, took = 20\<rparr>) ''sys'' ''hi'' []
      \<lparr>currentKeyIndex = 0, lastRequestTime = 9900, now = 10000, calls = 0\<rparr>))) = 10420"
proof -
  have t: "snd (snd (generateResponse [''key-one'', ''key-two''] RETRY_CONFIG
      (constUpstream \<lparr>outcome = Inl tooManyRequests, took = 20\<rparr>) ''sys'' ''hi'' []
      \<lparr>currentKeyIndex = 0, lastRequestTime = 9900, now = 10000, calls = 0\<rparr>)) =
     [Slept 400, Attempt 0 0 10400 (Inl tooManyRequests), Rotated 0 1,
      Attempt 1 0 10420 (Inl tooManyRequests)]"
    by code_simp
  have "[''key-one'', ''key-two''] \<noteq> ([] :: string list)" by simp
  from throttle_once_per_dispatch[OF this, of RETRY_CONFIG
      "constUpstream \<lparr>outcome = Inl tooManyRequests, took = 20\<rparr>" "''sys''" "''hi''" "[]"
      "\<lparr>currentKeyIndex = 0, lastRequestTime = 9900, now = 10000, calls = 0\<rparr>"]
  show ?thesis unfolding t by simp
qed

text \<open>
  C1 as stated fails: when the first key is rate limited, the attempt on the second key
  starts 20 ms after the first, closer than the minimum interval of 500 ms.
\<close>

theorem throttle_every_attempt_counterexample:
  "\<not> spacedBy MIN_REQUEST_INTERVAL_MS
       (attemptTimes (snd (snd (generateResponse [''key-one'', ''key-two''] RETRY_CONFIG
          (constUpstream \<lparr>outcome = Inl tooManyRequests, took = 20\<rparr>)
          ''sys'' ''hi'' [] state0))))"
  by code_simp

lemma rot_inj:
  assumes "a < N" "b < N" "(i + a) mod N = (i + b) mod N" shows "a = (b::nat)"
proof -
  have aux: "x = y" if "y \<le> x" "x < N" "(i + x) mod N = (i + y) mod N" for x y
  proof -
    from that have "N dvd (i + x) - (i + y)" by (simp add: mod_eq_dvd_iff_nat)
    then have "N dvd x - y" by simp
    with that have "x - y = 0" using nat_dvd_not_less[of "x - y" N] by (cases "x - y = 0") auto
    with that show ?thesis by simp
  qed
  show ?thesis using aux[of b a] aux[of a b] assms by (cases "b \<le> a") auto
qed

lemma rot_perm:
  assumes "i < (N::nat)"
  shows "distinct (map (\<lambda>j. (i + j) mod N) [0..<N])"
    and "set (map (\<lambda>j. (i + j) mod N) [0..<N]) = {0..<N}"
proof -
  have inj: "inj_on (\<lambda>j. (i + j) mod N) {0..<N}"
    by (rule inj_onI) (auto dest: rot_inj)
  then show "distinct (map (\<lambda>j. (i + j) mod N) [0..<N])"
    by (simp add: distinct_map)
  have sub: "(\<lambda>j. (i + j) mod N) ` {0..<N} \<subseteq> {0..<N}"
    using assms by auto
  have "card ((\<lambda>j. (i + j) mod N) ` {0..<N}) = card {0..<N}"
    using inj by (rule card_image)
  with sub have "(\<lambda>j. (i + j) mod N) ` {0..<N} = {0..<N}"
    by (intro card_subset_eq) auto
  then show "set (map (\<lambda>j. (i + j) mod N) [0..<N]) = {0..<N}"
    by simp
qed

lemma rot_shift:
  "i < N \<Longrightarrow> i # map (\<lambda>j. ((i + 1) mod N + j) mod N) [0..<m] = map (\<lambda>j. (i + j) mod N) [0..<Suc m]"
proof -
  assume i: "i < N"
  have "map (\<lambda>j. (i + j) mod N) [0..<Suc m] = (i + 0) mod N # map (\<lambda>j. (i + j) mod N) [Suc 0..<Suc m]"
    by (simp add: upt_conv_Cons del: upt_Suc)
  also have "map (\<lambda>j. (i + j) mod N) [Suc 0..<Suc m] = map (\<lambda>j. (i + Suc j) mod N) [0..<m]"
    by (simp add: map_Suc_upt[symmetric] del: upt_Suc)
  also have "\<dots> = map (\<lambda>j. ((i + 1) mod N + j) mod N) [0..<m]"
    by (simp add: mod_add_left_eq)
  finally show ?thesis using i by simp
qed

lemma attemptKeys_append: "attemptKeys (xs @ ys) = attemptKeys xs @ attemptKeys ys"
  by (induction xs rule: attemptKeys.induct) auto

lemma keyLoop_all_rate_limited:
  assumes up: "\<And>n key. \<exists>e. outcome (up n key req) = Inl e \<and> rotatesImmediately e"
  shows "k < length K \<Longrightarrow> currentKeyIndex st < length K \<Longrightarrow>
     keyLoop K cfg up req k le st = (res, s, evs) \<Longrightarrow>
     rotations evs = length K - Suc k \<and> length (attemptTimes evs) = length K - k
     \<and> attemptKeys evs = map (\<lambda>j. (currentKeyIndex st + j) mod length K) [0..<length K - k]
     \<and> calls s = calls st + (length K - k)
     \<and> currentKeyIndex s = (currentKeyIndex st + (length K - Suc k)) mod length K
     \<and> (\<exists>i a t e. last evs = Attempt i a t (Inl e) \<and> evs \<noteq> []
            \<and> res = Inl (''Gemini API Error: '' @ message e))"
proof (induction n \<equiv> "length K - Suc k" arbitrary: k le st res s evs)
  case 0
  then have fin: "\<not> Suc k < length K" and kk: "length K - k = 1" by simp_all
  obtain e where e: "outcome (up (calls st) (getCurrentKey K st) req) = Inl e" "rotatesImmediately e"
    using up by blast
  have a: "attemptLoop cfg up req (getCurrentKey K st) 0 le st =
      (KeyFailed (Some e), afterAttempt up req (getCurrentKey K st) st,
       [Attempt (currentKeyIndex st) 0 (now st) (Inl e)])"
    using e by (simp add: attemptLoop_break del: getCurrentKey_keyAt)
  from e have m: "message e \<noteq> []"
    by (simp add: rotatesImmediately_has429 has429_message)
  have "keyLoop K cfg up req k le st = (Inl (exhaustedMessage (Some e)),
       afterAttempt up req (getCurrentKey K st) st,
       [Attempt (currentKeyIndex st) 0 (now st) (Inl e)])"
    using keyLoop_final[OF "0.prems"(1) fin a] .
  with "0.prems" m fin kk show ?case
    by (auto simp: exhaustedMessage_def)
next
  case (Suc n)
  then have more: "Suc k < length K" and n: "n = length K - Suc (Suc k)" by simp_all
  obtain e where e: "outcome (up (calls st) (getCurrentKey K st) req) = Inl e" "rotatesImmediately e"
    using up by blast
  let ?st1 = "afterAttempt up req (getCurrentKey K st) st"
  have a: "attemptLoop cfg up req (getCurrentKey K st) 0 le st =
      (KeyFailed (Some e), ?st1, [Attempt (currentKeyIndex st) 0 (now st) (Inl e)])"
    using e by (simp add: attemptLoop_break del: getCurrentKey_keyAt)
  obtain x2 s2 evs2 where rec: "keyLoop K cfg up req (Suc k) (Some e) (snd (rotateToNextKey K ?st1)) =
          (x2, s2, evs2)"
    using prod_cases3 by blast
  have "currentKeyIndex (snd (rotateToNextKey K ?st1)) < length K"
  proof -
    from more have "0 < length K" by (cases K) simp_all
    then show ?thesis by simp
  qed
  note ih = Suc.hyps(1)[OF n more this rec]
  have eq: "keyLoop K cfg up req k le st =
     (x2, s2, [Attempt (currentKeyIndex st) 0 (now st) (Inl e),
               Rotated (currentKeyIndex ?st1) (currentKeyIndex (snd (rotateToNextKey K ?st1)))] @ evs2)"
    using keyLoop_rotate[OF more a] rec by (simp add: withEvents_def)
  have d: "length K - Suc k = Suc (length K - Suc (Suc k))"
    using more by simp
  have d': "length K - k = Suc (length K - Suc k)"
    using more by simp
  have idx: "currentKeyIndex s2 = (currentKeyIndex st + (length K - Suc k)) mod length K"
  proof -
    from ih have "currentKeyIndex s2 =
        ((currentKeyIndex st + 1) mod length K + (length K - Suc (Suc k))) mod length K"
      by simp
    then show ?thesis
      unfolding d rotate_iter .
  qed
  have keys: "currentKeyIndex st # attemptKeys evs2 =
      map (\<lambda>j. (currentKeyIndex st + j) mod length K) [0..<length K - k]"
  proof -
    from ih have "attemptKeys evs2 =
        map (\<lambda>j. ((currentKeyIndex st + 1) mod length K + j) mod length K) [0..<length K - Suc k]"
      by simp
    then show ?thesis
      unfolding d' using rot_shift[OF Suc.prems(2), of "length K - Suc k"] by simp
  qed
  from eq Suc.prems(3) have "res = x2" "s = s2"
    "evs = [Attempt (currentKeyIndex st) 0 (now st) (Inl e),
               Rotated (currentKeyIndex ?st1) (currentKeyIndex (snd (rotateToNextKey K ?st1)))] @ evs2"
    by simp_all
  with ih idx keys more show ?case
    by (auto simp: Suc_diff_Suc simp del: upt_Suc)
qed

text \<open>
  C2 (as amended). With N keys, N at least 1, and the cursor on one of them, if every
  upstream call fails with 429 in its message, the dispatch makes N attempts, one on each
  key, in the order of the pool from the cursor on and round the end; each attempt is made
  with the key under the cursor, and each rotation moves the cursor to the next index
  (\<open>follows\<close>); there are N - 1 rotations, the cursor is left on the key tried last, and the
  dispatch ends with the exhaustion error that carries the message of the last failure.
\<close>

theorem all_rate_limited_exhausts:
  assumes "API_KEYS \<noteq> []" and "currentKeyIndex st < length API_KEYS"
    and "\<forall>n key req. \<exists>e. outcome (up n key req) = Inl e \<and> rotatesImmediately e"
  shows "attemptKeys (snd (snd (generateResponse API_KEYS cfg up sp um hist st))) =
           map (\<lambda>j. (currentKeyIndex st + j) mod length API_KEYS) [0..<length API_KEYS]
       \<and> distinct (attemptKeys (snd (snd (generateResponse API_KEYS cfg up sp um hist st))))
       \<and> set (attemptKeys (snd (snd (generateResponse API_KEYS cfg up sp um hist st)))) =
           {0..<length API_KEYS}
       \<and> follows up API_KEYS
            \<lparr>systemInstruction = sp, history = buildHistory hist, userMessage = um\<rparr>
            (now st) (calls st) (currentKeyIndex st)
            (snd (snd (generateResponse API_KEYS cfg up sp um hist st)))
       \<and> rotations (snd (snd (generateResponse API_KEYS cfg up sp um hist st))) =
           length API_KEYS - 1
       \<and> currentKeyIndex (fst (snd (generateResponse API_KEYS cfg up sp um hist st))) =
           (currentKeyIndex st + (length API_KEYS - 1)) mod length API_KEYS
       \<and> (\<exists>i a t e.
             last (snd (snd (generateResponse API_KEYS cfg up sp um hist st))) =
               Attempt i a t (Inl e)
             \<and> fst (generateResponse API_KEYS cfg up sp um hist st) =
                 Inl (''Gemini API Error: '' @ message e))"
proof -
  let ?req = "\<lparr>systemInstruction = sp, history = buildHistory hist, userMessage = um\<rparr>"
  let ?st1 = "afterThrottle st"
  let ?N = "length API_KEYS"
  from assms(1) have k: "0 < ?N" by simp
  obtain x s evs where r: "keyLoop API_KEYS cfg up ?req 0 None ?st1 = (x, s, evs)"
    using prod_cases3 by blast
  have g: "generateResponse API_KEYS cfg up sp um hist st = (x, s, throttleWait st @ evs)"
    using r by (simp add: generateResponse_keyLoop withEvents_def)
  from assms(3) have up: "\<And>n key. \<exists>e. outcome (up n key ?req) = Inl e \<and> rotatesImmediately e"
    by blast
  from assms(2) have "currentKeyIndex ?st1 < ?N" by simp
  from keyLoop_all_rate_limited[where up=up and req="?req", OF up k this r]
  have 1: "rotations evs = ?N - 1"
    "attemptKeys evs = map (\<lambda>j. (currentKeyIndex st + j) mod ?N) [0..<?N]"
    "currentKeyIndex s = (currentKeyIndex st + (?N - 1)) mod ?N"
    and 2: "\<exists>i a t e. last evs = Attempt i a t (Inl e) \<and> evs \<noteq> []
            \<and> x = Inl (''Gemini API Error: '' @ message e)"
    by simp_all
  have p: "rotations (throttleWait st) = 0" "attemptKeys (throttleWait st) = []"
    by (simp_all add: throttleWait_def)
  from 2 have l: "last (throttleWait st @ evs) = last evs" by auto
  have fo: "follows up API_KEYS ?req (now st) (calls st) (currentKeyIndex st) (throttleWait st @ evs)"
    using follows_keyLoop[OF r, of "[]"] by (simp add: follows_throttle)
  have ak: "attemptKeys (throttleWait st @ evs) =
      map (\<lambda>j. (currentKeyIndex st + j) mod ?N) [0..<?N]"
    using 1(2) p by (simp add: attemptKeys_append)
  show ?thesis
    unfolding g using 1(1,3) 2 p l fo ak rot_perm[OF assms(2)]
    by (auto simp: rotations_append simp del: upt_Suc)
qed

text \<open>The amended C2 at three keys, the cursor on the second: the keys are tried in the
  order 1, 2, 0, with two rotations, and then comes the exhaustion error.\<close>

theorem all_rate_limited_exhausts_witness:
  "attemptKeys (snd (snd (generateResponse [''key-one'', ''key-two'', ''key-three''] RETRY_CONFIG
      (constUpstream \<lparr>outcome = Inl tooManyRequests, took = 20\<rparr>) ''sys'' ''hi'' []
      \<lparr>currentKeyIndex = 1, lastRequestTime = 0, now = 10000, calls = 0\<rparr>))) = [1, 2, 0]
   \<and> rotations (snd (snd (generateResponse [''key-one'', ''key-two'', ''key-three''] RETRY_CONFIG
      (constUpstream \<lparr>outcome = Inl tooManyRequests, took = 20\<rparr>) ''sys'' ''hi'' []
      \<lparr>currentKeyIndex = 1, lastRequestTime = 0, now = 10000, calls = 0\<rparr>))) = 2
   \<and> fst (generateResponse [''key-one'', ''key-two'', ''key-three''] RETRY_CONFIG
      (constUpstream \<lparr>outcome = Inl tooManyRequests, took = 20\<rparr>) ''sys'' ''hi'' []
      \<lparr>currentKeyIndex = 1, lastRequestTime = 0, now = 10000, calls = 0\<rparr>) =
       Inl ''Gemini API Error: [429 Too Many Requests] Resource has been exhausted''"
proof -
  let ?st = "\<lparr>currentKeyIndex = 1, lastRequestTime = 0, now = 10000, calls = 0\<rparr>"
  have h1: "[''key-one'', ''key-two'', ''key-three''] \<noteq> ([] :: string list)" by simp
  have h2: "currentKeyIndex ?st < length [''key-one'', ''key-two'', ''key-three'']"
    by simp
  have "rotatesImmediately tooManyRequests" by code_simp
  then have h3: "\<forall>n key req. \<exists>e.
      outcome (constUpstream \<lparr>outcome = Inl tooManyRequests, took = 20\<rparr> n key req) = Inl e
      \<and> rotatesImmediately e"
    by (simp add: constUpstream_def)
  have r: "fst (generateResponse [''key-one'', ''key-two'', ''key-three''] RETRY_CONFIG
      (constUpstream \<lparr>outcome = Inl tooManyRequests, took = 20\<rparr>) ''sys'' ''hi'' [] ?st) =
       Inl ''Gemini API Error: [429 Too Many Requests] Resource has been exhausted''"
    by code_simp
  have m: "map (\<lambda>j. (currentKeyIndex ?st + j) mod length [''key-one'', ''key-two'', ''key-three''])
             [0..<length [''key-one'', ''key-two'', ''key-three'']] = [1, 2, 0]"
    by code_simp
  from all_rate_limited_exhausts[OF h1 h2 h3, of RETRY_CONFIG "''sys''" "''hi''" "[]"] r m
  show ?thesis by simp
qed

text \<open>
  C2 as stated fails: with two keys, both rate limited, there is one rotation, not two.
\<close>

theorem exactly_N_switches_counterexample:
  "rotations (snd (snd (generateResponse [''key-one'', ''key-two''] RETRY_CONFIG
      (constUpstream \<lparr>outcome = Inl tooManyRequests, took = 20\<rparr>) ''sys'' ''hi'' [] state0)))
   \<noteq> length [''key-one'', ''key-two'']"
  by code_simp

text \<open>
  C3. The comment at the break says \<open>If rate limited or quota exceeded, try next key
  immediately\<close>, and \<open>isRetryableError\<close> counts the status code 429 as a rate limit; but the
  break tests the message alone. A failure with status 429 and the message \<open>Too Many
  Requests\<close> carries the rate-limit signal and is retryable, and yet the key is not
  abandoned: the dispatch sleeps the backoff of 1000 ms and makes its second attempt on the
  same key. The same run with 429 in the message rotates at once, with no sleep.
\<close>

theorem status_429_retried_on_same_key:
  "rateLimitSignal statusOnly429
   \<and> isRetryableError statusOnly429
   \<and> take 3 (snd (snd (generateResponse [''key-one'', ''key-two''] RETRY_CONFIG
          (constUpstream \<lparr>outcome = Inl statusOnly429, took = 20\<rparr>) ''sys'' ''hi'' [] state0))) =
       [Attempt 0 0 10000 (Inl statusOnly429), Slept 1000, Attempt 0 1 11020 (Inl statusOnly429)]
   \<and> snd (snd (generateResponse [''key-one'', ''key-two''] RETRY_CONFIG
          (constUpstream \<lparr>outcome = Inl tooManyRequests, took = 20\<rparr>) ''sys'' ''hi'' [] state0)) =
       [Attempt 0 0 10000 (Inl tooManyRequests), Rotated 0 1,
        Attempt 1 0 10020 (Inl tooManyRequests)]"
  by code_simp

text \<open>
  C4 (as amended). After a retryable failure without 429 in its message, with attempts
  left on the key, the trace goes on with a sleep and an attempt on the same key. The
  delay handed to the sleep is the suggested delay of the failure when it has one that is
  not zero, whatever the configured maximum; with no suggested delay it is
  min (initialDelay * backoffMultiplier ^ attempt) maxDelay, which is at most the
  configured maximum. The retry starts when the timer fires: for a delay from 1 to
  2147483647 ms that is the delay after the failure (outside this range the timer of
  \<open>setTimeout\<close> fires after 1 ms).
\<close>

theorem retry_delay_chosen:
  assumes "attempt < maxRetries cfg"
    and "outcome (up (calls st) key req) = Inl e"
    and "isRetryableError e"
    and "\<not> str_includes (message e) ''429''"
  shows "\<exists>x s d t r evs.
           attemptLoop cfg up req key attempt le st =
             (x, s, Attempt (currentKeyIndex st) attempt (now st) (Inl e) # Slept d #
                    Attempt (currentKeyIndex st) (Suc attempt) t r # evs)
         \<and> (\<forall>sd. getRetryDelayFromError e = Some sd \<and> sd \<noteq> 0 \<longrightarrow> d = sd)
         \<and> (getRetryDelayFromError e = None \<longrightarrow>
              d = min (initialDelayMs cfg * backoffMultiplier cfg ^ attempt) (maxDelayMs cfg)
              \<and> d \<le> maxDelayMs cfg)
         \<and> t = now st + took (up (calls st) key req) + timerDelay d
         \<and> (1 \<le> d \<and> d \<le> 2147483647 \<longrightarrow> t = now st + took (up (calls st) key req) + d)"
proof -
  define d where "d = retryDelay cfg attempt e"
  let ?st2 = "sleep d (afterAttempt up req key st)"
  from assms(4) have nb: "\<not> rotatesImmediately e" by (simp add: rotatesImmediately_def)
  from assms(1) have more: "Suc attempt \<le> maxRetries cfg" by simp
  obtain x s t r evs where
    rec: "attemptLoop cfg up req key (Suc attempt) (Some e) ?st2 =
            (x, s, Attempt (currentKeyIndex st) (Suc attempt) t r # evs)"
    and t: "t = now st + took (up (calls st) key req) + timerDelay d"
    using attemptLoop_first[OF more, of up req key "Some e" ?st2] by auto
  have eq: "attemptLoop cfg up req key attempt le st =
      (x, s, Attempt (currentKeyIndex st) attempt (now st) (Inl e) # Slept d #
             Attempt (currentKeyIndex st) (Suc attempt) t r # evs)"
    using attemptLoop_retry[where up=up and st=st and key=key and req=req and le=le,
        OF assms(1) assms(2) nb assms(3)] rec
    by (simp add: withEvents_def d_def)
  have d1: "\<forall>sd. getRetryDelayFromError e = Some sd \<and> sd \<noteq> 0 \<longrightarrow> d = sd"
    by (simp add: d_def retryDelay_def Let_def)
  have d2: "getRetryDelayFromError e = None \<longrightarrow>
              d = min (initialDelayMs cfg * backoffMultiplier cfg ^ attempt) (maxDelayMs cfg)
              \<and> d \<le> maxDelayMs cfg"
    by (simp add: d_def retryDelay_def getBackoffDelay_def Let_def)
  have t2: "1 \<le> d \<and> d \<le> 2147483647 \<longrightarrow> t = now st + took (up (calls st) key req) + d"
    using t by (simp add: timerDelay_def)
  from eq d1 d2 t t2 show ?thesis
    by (intro exI[of _ x] exI[of _ s] exI[of _ d] exI[of _ t] exI[of _ r] exI[of _ evs])
       (intro conjI; assumption)
qed

text \<open>The amended C4 at the first attempt of the shipped configuration: 1000 ms.\<close>

theorem retry_delay_chosen_witness:
  "(0::nat) < maxRetries RETRY_CONFIG \<and> isRetryableError serviceUnavailable
   \<and> \<not> str_includes (message serviceUnavailable) ''429''
   \<and> getRetryDelayFromError serviceUnavailable = None
   \<and> (\<exists>x s r evs.
         attemptLoop RETRY_CONFIG (constUpstream \<lparr>outcome = Inl serviceUnavailable, took = 20\<rparr>)
           \<lparr>systemInstruction = ''sys'', history = [], userMessage = ''hi''\<rparr>
           (Some ''key-one'') 0 None state0 =
         (x, s, Attempt 0 0 10000 (Inl serviceUnavailable) # Slept 1000 #
                Attempt 0 1 11020 r # evs))"
proof -
  have h1: "(0::nat) < maxRetries RETRY_CONFIG" by (simp add: RETRY_CONFIG_def)
  have h2: "outcome (constUpstream \<lparr>outcome = Inl serviceUnavailable, took = 20\<rparr> (calls state0)
              (Some ''key-one'') \<lparr>systemInstruction = ''sys'', history = [], userMessage = ''hi''\<rparr>) =
            Inl serviceUnavailable"
    by (simp add: constUpstream_def)
  have h3: "isRetryableError serviceUnavailable" by code_simp
  have h4: "\<not> str_includes (message serviceUnavailable) ''429''" by code_simp
  have h5: "getRetryDelayFromError serviceUnavailable = None"
    by (simp add: serviceUnavailable_def getRetryDelayFromError_def)
  have d: "min (initialDelayMs RETRY_CONFIG * backoffMultiplier RETRY_CONFIG ^ 0)
               (maxDelayMs RETRY_CONFIG) = 1000"
    by (simp add: RETRY_CONFIG_def)
  have tk: "took (constUpstream \<lparr>outcome = Inl serviceUnavailable, took = 20\<rparr> (calls state0)
              (Some ''key-one'') \<lparr>systemInstruction = ''sys'', history = [], userMessage = ''hi''\<rparr>) = 20"
    by (simp add: constUpstream_def)
  from retry_delay_chosen[where up="constUpstream \<lparr>outcome = Inl serviceUnavailable, took = 20\<rparr>"
        and st=state0 and key="Some ''key-one''" and le=None
        and req="\<lparr>systemInstruction = ''sys'', history = [], userMessage = ''hi''\<rparr>",
        OF h1 h2 h3 h4] d h1 h3 h4 h5 tk
  show ?thesis by (auto simp: state0_def timerDelay_def)
qed

text \<open>
  C4 as stated fails: a failure that suggests a retry in 30 s is followed by a sleep of
  30000 ms, above the configured maximum of 5000 ms.
\<close>

theorem retry_delay_capped_counterexample:
  "hd (retrySleeps (snd (snd (generateResponse [''key-one''] RETRY_CONFIG
        (constUpstream \<lparr>outcome = Inl unavailableRetryIn30s, took = 20\<rparr>) ''sys'' ''hi'' [] state0))))
     = 30000
   \<and> \<not> (30000 \<le> maxDelayMs RETRY_CONFIG)"
  by code_simp

subsection \<open>The context assembler\<close>

lemma trim_Nil [simp]: "trim [] = []"
  by (simp add: trim_def)

lemma startsWith_append: "startsWith (p @ b) p"
  by (induction p) auto

lemma str_includes_startsWith: "startsWith s p \<Longrightarrow> str_includes s p"
  by (cases s; cases p) auto

lemma str_includes_append: "str_includes (a @ p @ b) p"
  by (induction a) (auto simp: startsWith_append str_includes_startsWith)

text \<open>
  C6 (as amended). Of the snapshot categories, the ongoing events alone have a marker: when
  there are none, their block is the text \<open>[ONGOING/LIVE EVENTS]: No ongoing events at the
  moment.\<close> and two line breaks, and the turn contains it. The roster, the past events and
  the articles, when empty, put nothing into the turn, whatever the other categories
  hold: the turn is then the blocks of the others, the ongoing-events block among them,
  followed by the query line.
\<close>

theorem ongoing_marker_only:
  "(ongoingEvents eventsData = [] \<longrightarrow>
      ongoingBlock rt eventsData = ongoingNoneMarker @ nl @ nl
      \<and> str_includes (buildMessageWithContext rt msg teamData eventsData blogsData userData)
            ongoingNoneMarker)
   \<and> (teamData = [] \<longrightarrow>
        buildMessageWithContext rt msg teamData eventsData blogsData userData =
          ongoingBlock rt eventsData @ pastBlock rt eventsData @ blogsBlock rt blogsData @
          userBlock rt userData @ ''[USER QUERY]: '' @ msg)
   \<and> (pastEvents eventsData = [] \<longrightarrow>
        buildMessageWithContext rt msg teamData eventsData blogsData userData =
          teamBlock rt teamData @ ongoingBlock rt eventsData @ blogsBlock rt blogsData @
          userBlock rt userData @ ''[USER QUERY]: '' @ msg)
   \<and> (blogsData = [] \<longrightarrow>
        buildMessageWithContext rt msg teamData eventsData blogsData userData =
          teamBlock rt teamData @ ongoingBlock rt eventsData @ pastBlock rt eventsData @
          userBlock rt userData @ ''[USER QUERY]: '' @ msg)"
proof (intro conjI impI)
  assume e: "ongoingEvents eventsData = []"
  then show b: "ongoingBlock rt eventsData = ongoingNoneMarker @ nl @ nl"
    by (simp add: ongoingBlock_def)
  have "buildMessageWithContext rt msg teamData eventsData blogsData userData =
          teamBlock rt teamData @ ongoingNoneMarker @
            (nl @ nl @ pastBlock rt eventsData @ blogsBlock rt blogsData @
             userBlock rt userData @ ''[USER QUERY]: '' @ msg)"
    unfolding buildMessageWithContext_def b by simp
  then show "str_includes (buildMessageWithContext rt msg teamData eventsData blogsData userData)
        ongoingNoneMarker"
    by (simp only: str_includes_append)
next
  assume "teamData = []"
  then show "buildMessageWithContext rt msg teamData eventsData blogsData userData =
          ongoingBlock rt eventsData @ pastBlock rt eventsData @ blogsBlock rt blogsData @
          userBlock rt userData @ ''[USER QUERY]: '' @ msg"
    by (simp add: buildMessageWithContext_def teamBlock_def)
next
  assume "pastEvents eventsData = []"
  then show "buildMessageWithContext rt msg teamData eventsData blogsData userData =
          teamBlock rt teamData @ ongoingBlock rt eventsData @ blogsBlock rt blogsData @
          userBlock rt userData @ ''[USER QUERY]: '' @ msg"
    by (simp add: buildMessageWithContext_def pastBlock_def)
next
  assume "blogsData = []"
  then show "buildMessageWithContext rt msg teamData eventsData blogsData userData =
          teamBlock rt teamData @ ongoingBlock rt eventsData @ pastBlock rt eventsData @
          userBlock rt userData @ ''[USER QUERY]: '' @ msg"
    by (simp add: buildMessageWithContext_def blogsBlock_def)
qed

text \<open>
  The scenario of the specification, an empty ongoing-events snapshot and one past event,
  with no roster and no article: the turn is the ongoing-events marker, the past-events
  block and the query line.
\<close>

theorem ongoing_marker_only_witness:
  "str_includes
     (buildMessageWithContext testRuntime ''Any events?'' []
        \<lparr>ongoingEvents = [],
         pastEvents = [toEventData (sampleForm ''f1'' ''Old Fair'' (JNumber 1) (Some 100))
                         (the (info (sampleForm ''f1'' ''Old Fair'' (JNumber 1) (Some 100))))]\<rparr>
        [] None)
     ongoingNoneMarker
   \<and> buildMessageWithContext testRuntime ''Any events?'' []
        \<lparr>ongoingEvents = [],
         pastEvents = [toEventData (sampleForm ''f1'' ''Old Fair'' (JNumber 1) (Some 100))
                         (the (info (sampleForm ''f1'' ''Old Fair'' (JNumber 1) (Some 100))))]\<rparr>
        [] None =
       ''[ONGOING/LIVE EVENTS]: No ongoing events at the moment.'' @ nl @ nl @
       ''[PAST EVENTS - 1 completed events]:'' @ nl @ ''[events:1]'' @ nl @ nl @
       ''[USER QUERY]: Any events?''"
proof -
  let ?ev = "\<lparr>ongoingEvents = [],
         pastEvents = [toEventData (sampleForm ''f1'' ''Old Fair'' (JNumber 1) (Some 100))
                         (the (info (sampleForm ''f1'' ''Old Fair'' (JNumber 1) (Some 100))))]\<rparr>"
  have e: "ongoingEvents ?ev = []" by simp
  have b: "ongoingBlock testRuntime ?ev @ pastBlock testRuntime ?ev @
           blogsBlock testRuntime [] @ userBlock testRuntime None @
           ''[USER QUERY]: '' @ ''Any events?'' =
       ''[ONGOING/LIVE EVENTS]: No ongoing events at the moment.'' @ nl @ nl @
       ''[PAST EVENTS - 1 completed events]:'' @ nl @ ''[events:1]'' @ nl @ nl @
       ''[USER QUERY]: Any events?''"
    by code_simp
  have t: "([]::member list) = []" by simp
  from ongoing_marker_only[of ?ev testRuntime "''Any events?''" "[]" "[]" None] e t
  have 1: "str_includes (buildMessageWithContext testRuntime ''Any events?'' [] ?ev [] None)
             ongoingNoneMarker"
    and 2: "buildMessageWithContext testRuntime ''Any events?'' [] ?ev [] None =
          ongoingBlock testRuntime ?ev @ pastBlock testRuntime ?ev @
          blogsBlock testRuntime [] @ userBlock testRuntime None @
          ''[USER QUERY]: '' @ ''Any events?''"
    by blast+
  from 1 2 b show ?thesis by (simp only: simp_thms)
qed

text \<open>
  C6 as stated fails: with every snapshot empty, the turn for the query \<open>hi\<close> names the
  ongoing events only; the roster, the past events and the articles are left out.
\<close>

theorem every_category_marker_counterexample:
  "buildMessageWithContext testRuntime ''hi'' [] \<lparr>ongoingEvents = [], pastEvents = []\<rparr> [] None =
     ''[ONGOING/LIVE EVENTS]: No ongoing events at the moment.'' @ nl @ nl @ ''[USER QUERY]: hi''
   \<and> \<not> str_includes
         (buildMessageWithContext testRuntime ''hi'' [] \<lparr>ongoingEvents = [], pastEvents = []\<rparr> [] None)
         ''TEAM''
   \<and> \<not> str_includes
         (buildMessageWithContext testRuntime ''hi'' [] \<lparr>ongoingEvents = [], pastEvents = []\<rparr> [] None)
         ''PAST''
   \<and> \<not> str_includes
         (buildMessageWithContext testRuntime ''hi'' [] \<lparr>ongoingEvents = [], pastEvents = []\<rparr> [] None)
         ''BLOGS''"
  by code_simp

lemma set_insertSorted: "set (insertSorted cmp x ys) = insert x (set ys)"
  by (induction ys) auto

lemma mset_insertSorted: "mset (insertSorted cmp x ys) = add_mset x (mset ys)"
  by (induction ys) auto

lemma mset_stable: "mset (foldr (insertSorted cmp) xs []) = mset xs"
  by (induction xs) (auto simp: mset_insertSorted)

lemma consistentOn_antisym:
  assumes c: "consistentOn cmp xs" and a: "a \<in> set xs" and b: "b \<in> set xs"
    and lt: "sortCompare cmp a b < 0"
  shows "sortCompare cmp b a > 0"
proof -
  from c a have r: "sortCompare cmp a a = 0" unfolding consistentOn_def by blast
  from c a b have s: "sortCompare cmp b a = 0 \<Longrightarrow> sortCompare cmp a b = 0"
    unfolding consistentOn_def by blast
  from c a b have t: "sortCompare cmp a b < 0 \<Longrightarrow> sortCompare cmp b a < 0 \<Longrightarrow> sortCompare cmp a a < 0"
    unfolding consistentOn_def by blast
  from r s t lt show ?thesis by linarith
qed

lemma consistentOn_antisym':
  assumes c: "consistentOn cmp xs" and a: "a \<in> set xs" and b: "b \<in> set xs"
    and gt: "sortCompare cmp a b > 0"
  shows "sortCompare cmp b a < 0"
proof -
  from c a have r: "sortCompare cmp a a = 0" unfolding consistentOn_def by blast
  from c a b have s: "sortCompare cmp b a = 0 \<Longrightarrow> sortCompare cmp a b = 0"
    unfolding consistentOn_def by blast
  from c a b have t: "sortCompare cmp a b > 0 \<Longrightarrow> sortCompare cmp b a > 0 \<Longrightarrow> sortCompare cmp a a > 0"
    unfolding consistentOn_def by blast
  from r s t gt show ?thesis by linarith
qed

lemma consistentOn_total:
  assumes "consistentOn cmp xs" "a \<in> set xs" "b \<in> set xs"
  shows "sortCompare cmp a b \<le> 0 \<or> sortCompare cmp b a \<le> 0"
  using consistentOn_antisym'[OF assms] by linarith

lemma consistentOn_trans:
  assumes c: "consistentOn cmp xs" and a: "a \<in> set xs" and b: "b \<in> set xs" and d: "d \<in> set xs"
    and ab: "sortCompare cmp a b \<le> 0" and bd: "sortCompare cmp b d \<le> 0"
  shows "sortCompare cmp a d \<le> 0"
proof (rule ccontr)
  assume "\<not> sortCompare cmp a d \<le> 0"
  then have ad: "sortCompare cmp a d > 0" by simp
  then have da: "sortCompare cmp d a < 0" using consistentOn_antisym'[OF c a d] by simp
  have sym: "\<And>x y. x \<in> set xs \<Longrightarrow> y \<in> set xs \<Longrightarrow> sortCompare cmp x y = 0 \<Longrightarrow> sortCompare cmp y x = 0"
    using c unfolding consistentOn_def by blast
  have t0: "\<And>x y z. x \<in> set xs \<Longrightarrow> y \<in> set xs \<Longrightarrow> z \<in> set xs \<Longrightarrow>
      sortCompare cmp x y = 0 \<Longrightarrow> sortCompare cmp y z = 0 \<Longrightarrow> sortCompare cmp x z = 0"
    using c unfolding consistentOn_def by blast
  have tl: "\<And>x y z. x \<in> set xs \<Longrightarrow> y \<in> set xs \<Longrightarrow> z \<in> set xs \<Longrightarrow>
      sortCompare cmp x y < 0 \<Longrightarrow> sortCompare cmp y z < 0 \<Longrightarrow> sortCompare cmp x z < 0"
    using c unfolding consistentOn_def by blast
  consider (ll) "sortCompare cmp a b < 0" "sortCompare cmp b d < 0"
    | (le) "sortCompare cmp a b < 0" "sortCompare cmp b d = 0"
    | (el) "sortCompare cmp a b = 0" "sortCompare cmp b d < 0"
    | (ee) "sortCompare cmp a b = 0" "sortCompare cmp b d = 0"
    using ab bd by linarith
  then show False
  proof cases
    case ll
    from tl[OF a b d ll] ad show False by simp
  next
    case le
    from tl[OF d a b da le(1)] have "sortCompare cmp d b < 0" .
    moreover from sym[OF b d le(2)] have "sortCompare cmp d b = 0" .
    ultimately show False by simp
  next
    case el
    from tl[OF b d a el(2) da] have "sortCompare cmp b a < 0" .
    moreover from sym[OF a b el(1)] have "sortCompare cmp b a = 0" .
    ultimately show False by simp
  next
    case ee
    from t0[OF a b d ee] ad show False by simp
  qed
qed

lemma sorted_insertSorted:
  assumes c: "consistentOn cmp zs"
  shows "x \<in> set zs \<Longrightarrow> set ys \<subseteq> set zs \<Longrightarrow> sorted_wrt (\<lambda>a b. sortCompare cmp a b \<le> 0) ys \<Longrightarrow>
         sorted_wrt (\<lambda>a b. sortCompare cmp a b \<le> 0) (insertSorted cmp x ys)"
proof (induction ys)
  case Nil
  then show ?case by simp
next
  case (Cons y ys)
  show ?case
  proof (cases "sortCompare cmp x y \<le> 0")
    case True
    have "\<forall>z\<in>set ys. sortCompare cmp x z \<le> 0"
    proof
      fix z assume z: "z \<in> set ys"
      with Cons.prems have "sortCompare cmp y z \<le> 0" "z \<in> set zs" "y \<in> set zs" by auto
      with True Cons.prems(1) show "sortCompare cmp x z \<le> 0"
        using consistentOn_trans[OF c, of x y z] by blast
    qed
    with True Cons.prems show ?thesis by simp
  next
    case False
    with consistentOn_total[OF c, of x y] Cons.prems have yx: "sortCompare cmp y x \<le> 0" by auto
    from Cons.prems have "sorted_wrt (\<lambda>a b. sortCompare cmp a b \<le> 0) (insertSorted cmp x ys)"
      using Cons.IH by simp
    with False yx Cons.prems show ?thesis by (auto simp: set_insertSorted)
  qed
qed

lemma sorted_stable:
  assumes c: "consistentOn cmp zs"
  shows "set xs \<subseteq> set zs \<Longrightarrow>
         sorted_wrt (\<lambda>a b. sortCompare cmp a b \<le> 0) (foldr (insertSorted cmp) xs [])"
proof (induction xs)
  case Nil
  then show ?case by simp
next
  case (Cons x xs)
  then have s: "sorted_wrt (\<lambda>a b. sortCompare cmp a b \<le> 0) (foldr (insertSorted cmp) xs [])"
    by simp
  have "set (foldr (insertSorted cmp) xs []) \<subseteq> set zs"
    using Cons.prems by (metis mset_stable set_mset_mset set_subset_Cons subset_trans)
  with sorted_insertSorted[OF c, of x "foldr (insertSorted cmp) xs []"] s Cons.prems
  show ?case by simp
qed

lemma fst_collectEvents:
  "fst (collectEvents forms) =
     map (\<lambda>f. toEventData f (the (info f))) (filter isOngoingPublic forms)"
  by (induction forms) (auto simp: isOngoingPublic_def split: prod.splits option.splits)

lemma compareOngoing_dated:
  "eventDate a \<noteq> None \<Longrightarrow> eventDate b \<noteq> None \<Longrightarrow>
   (sortCompare (compareOngoing lc) a b \<le> 0) = ongoingOrder lc a b"
  by (auto simp: sortCompare_def compareOngoing_def ongoingOrder_def split: if_splits)

text \<open>
  Where the comparator does what its comments say: when the date of every public event
  not yet past is a valid date, and the comparator is consistent on these events, the
  ongoing events that \<open>fetchEventsData\<close> returns are exactly those events, ordered by
  priority ascending, then date ascending, then title ascending.
\<close>

lemma ongoing_events_ordered_when_dated:
  assumes forms: "formRows db = Some forms"
    and dates: "\<forall>f\<in>set forms. isOngoingPublic f \<longrightarrow> infoEventDate (the (info f)) \<noteq> None"
    and cons: "consistentOn (compareOngoing (localeCompare rt))
                 (map (\<lambda>f. toEventData f (the (info f))) (filter isOngoingPublic forms))"
  shows "sorted_wrt (ongoingOrder (localeCompare rt)) (ongoingEvents (fetchEventsData rt db))
       \<and> mset (ongoingEvents (fetchEventsData rt db)) =
           mset (map (\<lambda>f. toEventData f (the (info f))) (filter isOngoingPublic forms))"
proof -
  let ?lc = "localeCompare rt"
  let ?cmp = "compareOngoing ?lc"
  let ?on = "fst (collectEvents forms)"
  let ?out = "foldr (insertSorted ?cmp) ?on []"
  have on: "?on = map (\<lambda>f. toEventData f (the (info f))) (filter isOngoingPublic forms)"
    by (rule fst_collectEvents)
  from cons have c: "consistentOn ?cmp ?on" unfolding on .
  have out: "ongoingEvents (fetchEventsData rt db) = ?out"
    using forms c by (cases "collectEvents forms") (simp add: fetchEventsData_def arraySort_def)
  have sub: "\<forall>e\<in>set ?on. eventDate e \<noteq> None"
    unfolding on using dates by (auto simp: toEventData_def)
  have s: "sorted_wrt (\<lambda>a b. sortCompare ?cmp a b \<le> 0) ?out"
    using sorted_stable[OF c, of ?on] by simp
  have sub': "\<forall>e\<in>set ?out. eventDate e \<noteq> None"
    using sub by (metis mset_stable set_mset_mset)
  have 1: "sorted_wrt (ongoingOrder ?lc) ?out"
  proof (rule sorted_wrt_mono_rel[OF _ s])
    fix x y
    assume x: "x \<in> set ?out" and y: "y \<in> set ?out"
      and le: "sortCompare ?cmp x y \<le> 0"
    from x y sub' have "eventDate x \<noteq> None" "eventDate y \<noteq> None" by blast+
    with le show "ongoingOrder ?lc x y" by (simp add: compareOngoing_dated)
  qed
  have 2: "mset ?out =
           mset (map (\<lambda>f. toEventData f (the (info f))) (filter isOngoingPublic forms))"
    using on by (simp add: mset_stable)
  show ?thesis
    using 1 2 unfolding out by simp
qed

text \<open>The same at four dated events: priority first, then date, then title.\<close>

lemma ongoing_events_ordered_example:
  "map eventTitle
     (ongoingEvents (fetchEventsData testRuntime
        (storeWithForms [sampleForm ''f1'' ''Zeta'' (JNumber 2) (Some 300),
                         sampleForm ''f2'' ''Beta'' (JNumber 1) (Some 200),
                         sampleForm ''f3'' ''Alpha'' (JNumber 1) (Some 200),
                         sampleForm ''f4'' ''Early'' (JNumber 1) (Some 100)]))) =
     [''Early'', ''Alpha'', ''Beta'', ''Zeta'']"
  by code_simp

text \<open>
  The cap: the block of the ongoing events, when there is one at least, is made of their
  number and of the JSON text of the first 15 of them, in the order they come in.
\<close>

lemma ongoing_block_first_15:
  "ongoingEvents eventsData \<noteq> [] \<Longrightarrow>
   ongoingBlock rt eventsData =
     ''[ONGOING/LIVE EVENTS - '' @ showNat (length (ongoingEvents eventsData)) @
       '' active events]:'' @ nl @
     strEvents rt (take 15 (ongoingEvents eventsData)) @ nl @ nl"
  by (simp add: ongoingBlock_def)

text \<open>
  C7. The comments of the comparator say: by priority first, then date, then title, and
  \<open>If same date, compare alphabetically\<close>. For two events of one priority whose dates are
  missing, the comparator returns \<open>NaN\<close> both ways, the sort leaves them as they came and
  the titles are not compared: Beta stays before Alpha, and the output is not in the order
  (priority, date, title). The same two events with one valid date come out by title.
\<close>

theorem title_tiebreak_skipped_without_dates:
  "compareOngoing (localeCompare testRuntime)
     (toEventData (sampleForm ''f1'' ''Beta'' (JNumber 1) None)
        (the (info (sampleForm ''f1'' ''Beta'' (JNumber 1) None))))
     (toEventData (sampleForm ''f2'' ''Alpha'' (JNumber 1) None)
        (the (info (sampleForm ''f2'' ''Alpha'' (JNumber 1) None)))) = None
   \<and> map eventTitle
     (ongoingEvents (fetchEventsData testRuntime
        (storeWithForms [sampleForm ''f1'' ''Beta'' (JNumber 1) None,
                         sampleForm ''f2'' ''Alpha'' (JNumber 1) None]))) = [''Beta'', ''Alpha'']
   \<and> \<not> sorted_wrt (ongoingOrder (localeCompare testRuntime))
         (ongoingEvents (fetchEventsData testRuntime
            (storeWithForms [sampleForm ''f1'' ''Beta'' (JNumber 1) None,
                             sampleForm ''f2'' ''Alpha'' (JNumber 1) None])))
   \<and> map eventTitle
     (ongoingEvents (fetchEventsData testRuntime
        (storeWithForms [sampleForm ''f1'' ''Beta'' (JNumber 1) (Some 1000),
                         sampleForm ''f2'' ''Alpha'' (JNumber 1) (Some 1000)]))) = [''Alpha'', ''Beta'']"
  by code_simp

text \<open>
  C8. The priority value 0, as a number or as the string \<open>0\<close>, parses to the integer 0, and
  the event assembled from it has priority 999, not 0: the value 0 is falsy and takes the
  default. An event with priority 0 is therefore sorted after one with priority 1.
\<close>

theorem priority_zero_becomes_999:
  "parseInt10 (toStringJs (JNumber 0)) = Some 0
   \<and> parseInt10 (toStringJs (JString ''0'')) = Some 0
   \<and> map eventPriority
        (ongoingEvents (fetchEventsData testRuntime
           (storeWithForms [sampleForm ''f1'' ''Launch'' (JNumber 0) (Some 1000),
                            sampleForm ''f2'' ''Meetup'' (JNumber 1) (Some 1000)]))) = [1, 999]"
  by code_simp

subsection \<open>The two-stage dispatcher\<close>




text \<open>
  C9. A non-empty message that contains a personal-data keyword (in any letter case), sent
  with no caller identity, gets the auth-required response, with no store query and no
  generation call, the generator's state untouched. A message that is not a string, or is
  empty after trimming, is rejected just so, before any query or call.
\<close>

theorem auth_required_before_any_fetch:
  "(reqMessage req = JString msg \<and> trim msg \<noteq> [] \<and> kw \<in> set AUTH_REQUIRED_KEYWORDS
      \<and> str_includes (toLowerCase msg) kw \<and> reqUser req = None
      \<longrightarrow> processMessage rt gen db req g = (AuthRequired, [], g))
   \<and> ((\<forall>s. reqMessage req = JString s \<longrightarrow> trim s = [])
      \<longrightarrow> processMessage rt gen db req g =
            (BadRequest ''Message is required and must be a non-empty string'', [], g))"
proof (intro conjI impI)
  assume a: "reqMessage req = JString msg \<and> trim msg \<noteq> [] \<and> kw \<in> set AUTH_REQUIRED_KEYWORDS
      \<and> str_includes (toLowerCase msg) kw \<and> reqUser req = None"
  then have "requiresAuth msg"
    by (auto simp: requiresAuth_def list_ex_iff)
  moreover from a have "msg \<noteq> []" by auto
  ultimately show "processMessage rt gen db req g = (AuthRequired, [], g)"
    using a by (simp add: processMessage_def)
next
  assume "\<forall>s. reqMessage req = JString s \<longrightarrow> trim s = []"
  then show "processMessage rt gen db req g =
            (BadRequest ''Message is required and must be a non-empty string'', [], g)"
    by (cases "reqMessage req") (simp_all add: processMessage_def)
qed

text \<open>C9 at an unauthenticated question about certificates, and at a blank message.\<close>

theorem auth_required_before_any_fetch_witness:
  "processMessage testRuntime scripted emptyStore
     \<lparr>reqMessage = JString ''Show MY Certificates'', conversationHistory = [], reqUser = None\<rparr>
     [''unused''] = (AuthRequired, [], [''unused''])
   \<and> processMessage testRuntime scripted emptyStore
     \<lparr>reqMessage = JString ''   '', conversationHistory = [], reqUser = None\<rparr>
     [''unused''] =
       (BadRequest ''Message is required and must be a non-empty string'', [], [''unused''])"
proof -
  have h1: "trim ''Show MY Certificates'' \<noteq> []" by code_simp
  have h2: "''my certificate'' \<in> set AUTH_REQUIRED_KEYWORDS"
    by (simp add: AUTH_REQUIRED_KEYWORDS_def)
  have h3: "str_includes (toLowerCase ''Show MY Certificates'') ''my certificate''" by code_simp
  have h4: "trim ''   '' = []" by code_simp
  from auth_required_before_any_fetch
      [of "\<lparr>reqMessage = JString ''Show MY Certificates'', conversationHistory = [], reqUser = None\<rparr>"
          "''Show MY Certificates''" "''my certificate''" testRuntime scripted emptyStore "[''unused'']"]
    auth_required_before_any_fetch
      [of "\<lparr>reqMessage = JString ''   '', conversationHistory = [], reqUser = None\<rparr>"
          "''x''" "''x''" testRuntime scripted emptyStore "[''unused'']"]
    h1 h2 h3 h4
  show ?thesis by simp
qed

text \<open>
  The controller wired to the Gemini service, on a question about alumni: the first
  generation returns the sentinel with a line break after it, the alumni are fetched, and
  the second generation, throttled by 400 ms, gives the answer.
\<close>

lemma end_to_end_alumni:
  "processMessage testRuntime
     (geminiGenerator [''key-one'', ''key-two''] RETRY_CONFIG
        (scriptedUpstream [''ALUMINI'' @ nl, ''Our alumni are listed here. [NAV:/alumni]'']))
     emptyStore
     \<lparr>reqMessage = JString ''Who are the alumni?'', conversationHistory = [], reqUser = None\<rparr>
     state0 =
   (Answer ''Our alumni are listed here. [NAV:/alumni]''
      \<lparr>teamMembersCount = 0, ongoingEventsCount = 0, pastEventsCount = 0, blogsCount = 0,
       isAuthenticated = False, metaUserName = None\<rparr>,
    [QueryTeam, QueryForms, QueryBlogs,
     Generate (buildPrompt testRuntime [] \<lparr>ongoingEvents = [], pastEvents = []\<rparr> [] None)
       (buildMessageWithContext testRuntime ''Who are the alumni?'' []
          \<lparr>ongoingEvents = [], pastEvents = []\<rparr> [] None) [],
     QueryAlumni,
     Generate (buildPrompt testRuntime [] \<lparr>ongoingEvents = [], pastEvents = []\<rparr> [] None @ alumniAddendum)
       (buildAlumniContext testRuntime ''Who are the alumni?'' []) []],
    \<lparr>currentKeyIndex = 0, lastRequestTime = 10500, now = 10600, calls = 2\<rparr>)"
  by code_simp

subsection \<open>The send-email operation\<close>

text \<open>
  C10. As wired, with the transporters that config/nodeMailer.js exports, every send-email
  request with non-empty content gets the delivery-failure response (status 500) and no
  mail is handed to a transporter; no request at all reaches the success response.
\<close>

theorem sendEmail_always_fails:
  "(\<forall>c. content req = Some c \<and> trim c \<noteq> [] \<longrightarrow>
      sendEmail mailTransporters mailUser req =
        (\<lparr>resStatus = 500, resSuccess = False,
          resMessage = ''Failed to send email. Please try again later.''\<rparr>, []))
   \<and> resStatus (fst (sendEmail mailTransporters mailUser req)) \<noteq> 200
   \<and> primary mailTransporters = None \<and> secondary mailTransporters = None
   \<and> tertiary mailTransporters = None \<and> mailerSend mailTransporters = None"
  by (auto simp: sendEmail_def mailTransporters_def trim_def Let_def split: option.splits)

theorem sendEmail_always_fails_witness:
  "sendEmail mailTransporters (Some ''fed@example.org'')
     \<lparr>content = Some ''Hello FED'', senderName = None, senderEmail = None, emailUser = None\<rparr> =
     (\<lparr>resStatus = 500, resSuccess = False,
       resMessage = ''Failed to send email. Please try again later.''\<rparr>, [])"
proof -
  have "trim ''Hello FED'' \<noteq> []"
    by (simp add: trim_def isWhiteSpace_def)
  then show ?thesis
    using sendEmail_always_fails
      [of "\<lparr>content = Some ''Hello FED'', senderName = None, senderEmail = None, emailUser = None\<rparr>"
          "Some ''fed@example.org''"]
    by simp
qed

end
